theory Spec2Isabelle
  imports Complex_Main "HOL-Library.AList" "HOL-Library.Signed_Division"
begin

section \<open>JSON values as the program sees them\<close>

text \<open>
  \<open>readJSON\<close> hands the program the value that \<open>JSON.parse\<close> built. An object is
  kept as the list of its members in the order \<open>Object.keys\<close> enumerates them.
  \<open>undefined\<close> (the result of reading a property that is not there) is \<open>None\<close> of
  \<open>json option\<close>. A number is the real number the parsed double stands for; the
  program only ever asks whether it is zero, and hands it back as it got it. The
  characters of a string stand for its code units.
\<close>

datatype json =
    JNull
  | JBool bool
  | JNumber real
  | JString string
  | JArray "json list"
  | JObject "(string \<times> json) list"

type_synonym members = "(string \<times> json) list"

text \<open>JavaScript truthiness of a parsed value, as tested by \<open>if (x)\<close> and \<open>!x\<close>.\<close>

fun truthy :: "json \<Rightarrow> bool" where
  "truthy JNull = False"
| "truthy (JBool b) = b"
| "truthy (JNumber n) = (n \<noteq> 0)"
| "truthy (JString s) = (s \<noteq> [])"
| "truthy (JArray xs) = True"
| "truthy (JObject ms) = True"

text \<open>
  \<open>define_prop\<close> is the creation of an own data property, as \<open>JSON.parse\<close> does it
  for each member it reads and as an assignment does it for a name that is not
  inherited: an existing name keeps its place and takes the new value, a new name goes
  to the end. (JavaScript enumerates the names that are array indices before the
  others; the theorems below compare mappings as maps from names to configs, which
  this order does not touch.) \<open>delete_prop\<close> is the \<open>delete\<close> operator.
\<close>

definition define_prop :: "members \<Rightarrow> string \<Rightarrow> json \<Rightarrow> members" where
  "define_prop ms k v = AList.update k v ms"

definition delete_prop :: "members \<Rightarrow> string \<Rightarrow> members" where
  "delete_prop ms k = AList.delete k ms"

text \<open>
  The own properties of the object that \<open>JSON.parse\<close> builds from a member list: a
  name written twice in the text is one property, at its first place and with its last
  value. On a list without repeated names this is the list itself.
\<close>

definition own_props :: "members \<Rightarrow> members" where
  "own_props ms = foldl (\<lambda>acc (k, v). define_prop acc k v) [] ms"

text \<open>
  An assignment \<open>obj[k] = v\<close> to an ordinary object. Every ordinary object inherits the
  accessor \<open>__proto__\<close> from \<open>Object.prototype\<close>: unless the object has an own property
  of that name (which only \<open>JSON.parse\<close> creates), the assignment runs the inherited
  setter and creates no own property, so \<open>Object.keys\<close> and \<open>JSON.stringify\<close> never
  see it.
\<close>

definition assign :: "members \<Rightarrow> string \<Rightarrow> json \<Rightarrow> members" where
  "assign ms k v =
     (if k = ''__proto__'' \<and> k \<notin> set (map fst ms) then ms else define_prop ms k v)"

text \<open>Decimal numerals, the names of the index properties of arrays and strings.\<close>

definition digit :: "nat \<Rightarrow> char" where
  "digit d = ''0123456789'' ! d"

fun dec :: "nat \<Rightarrow> string" where
  "dec n = (if n < 10 then [digit n] else dec (n div 10) @ [digit (n mod 10)])"

declare dec.simps [simp del]

text \<open>
  \<open>own_entries v\<close> lists, for a truthy value \<open>v\<close>, the names \<open>Object.keys(v)\<close> returns,
  each with the value \<open>v[name]\<close>: the members of an object, the elements of an array
  under their indices, the one-character strings of a string under their indices, and
  nothing for a number or a boolean.
\<close>

fun own_entries :: "json \<Rightarrow> members" where
  "own_entries (JObject ms) = own_props ms"
| "own_entries (JArray xs) = zip (map dec [0..<length xs]) xs"
| "own_entries (JString s) = zip (map dec [0..<length s]) (map (\<lambda>c. JString [c]) s)"
| "own_entries v = []"

text \<open>
  \<open>get_prop v k\<close> reads \<open>v[k]\<close> for the four names the program reads by name:
  \<open>mcpServers\<close>, \<open>_disabledMcpServers\<close>, \<open>projects\<close> and the working directory, an
  absolute path. None of them is an array index, \<open>length\<close> or an inherited name, so
  only an object can hold one; on \<open>null\<close> the program reads through \<open>?.\<close> only, which
  gives \<open>undefined\<close> as well.
\<close>

fun get_prop :: "json \<Rightarrow> string \<Rightarrow> json option" where
  "get_prop (JObject ms) k = map_of (own_props ms) k"
| "get_prop v k = None"

section \<open>The server list builder\<close>

datatype scope = User | Local

record server =
  name :: string
  source :: scope
  enabled :: bool
  config :: json

datatype load_error = ConfigUnreadable

text \<open>\<open>process.cwd().replace(/\\/g, '/')\<close>: every backslash becomes a slash.\<close>

definition normalize_cwd :: "string \<Rightarrow> string" where
  "normalize_cwd p = map (\<lambda>c. if c = CHR 0x5C then CHR ''/'' else c) p"

text \<open>\<open>claudeJson.projects?.[cwd]\<close>, for \<open>cwd\<close> already normalised.\<close>

definition project_entry :: "json \<Rightarrow> string \<Rightarrow> json option" where
  "project_entry claudeJson cwd =
     (case get_prop claudeJson ''projects'' of
        None \<Rightarrow> None
      | Some projects \<Rightarrow> get_prop projects cwd)"

text \<open>
  What one of the four loops of \<open>loadServers\<close> runs over: \<open>if (holder?.key)\<close> guards
  \<open>for (const name of Object.keys(holder.key))\<close>, whose body reads \<open>holder.key[name]\<close>.
  A guard that fails is a loop over nothing.
\<close>

definition entries_at :: "json option \<Rightarrow> string \<Rightarrow> members" where
  "entries_at holder key =
     (case holder of
        None \<Rightarrow> []
      | Some h \<Rightarrow>
          (case get_prop h key of
             None \<Rightarrow> []
           | Some m \<Rightarrow> if truthy m then own_entries m else []))"

text \<open>The first loop pushes every name; the other three skip a name already seen.\<close>

fun push_all :: "scope \<Rightarrow> bool \<Rightarrow> members \<Rightarrow> server list \<times> string set \<Rightarrow> server list \<times> string set" where
  "push_all src en [] st = st"
| "push_all src en ((nm, cfg) # rest) (servers, seen) =
     push_all src en rest
       (servers @ [\<lparr>name = nm, source = src, enabled = en, config = cfg\<rparr>], insert nm seen)"

fun push_unseen :: "scope \<Rightarrow> bool \<Rightarrow> members \<Rightarrow> server list \<times> string set \<Rightarrow> server list \<times> string set" where
  "push_unseen src en [] st = st"
| "push_unseen src en ((nm, cfg) # rest) (servers, seen) =
     (if nm \<notin> seen
      then push_unseen src en rest
             (servers @ [\<lparr>name = nm, source = src, enabled = en, config = cfg\<rparr>], insert nm seen)
      else push_unseen src en rest (servers, seen))"

definition loadServers :: "json option \<Rightarrow> string \<Rightarrow> load_error + server list" where
  "loadServers read pcwd =
     (case read of
        None \<Rightarrow> Inl ConfigUnreadable
      | Some claudeJson \<Rightarrow>
          if \<not> truthy claudeJson then Inl ConfigUnreadable
          else
            let st1 = push_all User True (entries_at (Some claudeJson) ''mcpServers'') ([], {});
                st2 = push_unseen User False
                        (entries_at (Some claudeJson) ''_disabledMcpServers'') st1;
                cwd = normalize_cwd pcwd;
                projectEntry = project_entry claudeJson cwd;
                st3 = push_unseen Local True (entries_at projectEntry ''mcpServers'') st2;
                st4 = push_unseen Local False
                        (entries_at projectEntry ''_disabledMcpServers'') st3
            in Inr (fst st4))"

section \<open>The writer\<close>

text \<open>
  \<open>saveState\<close> returns without writing when the file cannot be read again, throws a
  \<open>TypeError\<close> when it assigns a property to a number, a boolean or a string (the file
  is an ES module, hence strict code), and otherwise hands a document to
  \<open>writeFileSync\<close>: the value below is the document that \<open>JSON.stringify\<close> is given.
\<close>

datatype save_result = NotWritten | TypeError | Written json

text \<open>The loop that fills the active and the disabled mapping of one scope.\<close>

fun rebuild :: "server list \<Rightarrow> members \<times> members \<Rightarrow> members \<times> members" where
  "rebuild [] acc = acc"
| "rebuild (s # ss) (active, disabled) =
     (if enabled s
      then rebuild ss (assign active (name s) (config s), disabled)
      else rebuild ss (active, assign disabled (name s) (config s)))"

text \<open>
  The three statements after the loop, on the members of the object they assign to: the
  active mapping always, the disabled mapping when it has a key, else its key deleted.
\<close>

definition store :: "members \<Rightarrow> members \<times> members \<Rightarrow> members" where
  "store ms ad =
     (let ms1 = assign ms ''mcpServers'' (JObject (fst ad))
      in if length (snd ad) > 0
         then assign ms1 ''_disabledMcpServers'' (JObject (snd ad))
         else delete_prop ms1 ''_disabledMcpServers'')"

text \<open>
  \<open>claudeJson.projects?.[cwd]\<close> finds an entry only when \<open>projects\<close> is an object
  that has it. The local scope is rebuilt in the project entry itself, which stays where
  it is inside \<open>projects\<close>, and that inside the document. An array takes the
  assignments as properties that \<open>JSON.stringify\<close> does not print, so it is written as
  it was read.
\<close>

definition saveState :: "server list \<Rightarrow> json option \<Rightarrow> string \<Rightarrow> save_result" where
  "saveState servers read pcwd =
     (case read of
        None \<Rightarrow> NotWritten
      | Some claudeJson \<Rightarrow>
          if \<not> truthy claudeJson then NotWritten
          else
            let cwd = normalize_cwd pcwd;
                user = rebuild (filter (\<lambda>s. source s = User) servers) ([], []);
                local = rebuild (filter (\<lambda>s. source s = Local) servers) ([], [])
            in (case claudeJson of
                  JObject raw \<Rightarrow>
                    (let ms = store (own_props raw) user
                     in (case get_prop (JObject ms) ''projects'' of
                           Some (JObject praw) \<Rightarrow>
                             (case map_of (own_props praw) cwd of
                                None \<Rightarrow> Written (JObject ms)
                              | Some projectEntry \<Rightarrow>
                                  if \<not> truthy projectEntry then Written (JObject ms)
                                  else
                                    (case projectEntry of
                                       JObject eraw \<Rightarrow>
                                         Written (JObject (define_prop ms ''projects''
                                           (JObject (define_prop (own_props praw) cwd
                                              (JObject (store (own_props eraw) local))))))
                                     | JArray xs \<Rightarrow> Written (JObject ms)
                                     | _ \<Rightarrow> TypeError))
                         | _ \<Rightarrow> Written (JObject ms)))
                | JArray xs \<Rightarrow> Written (JArray xs)
                | _ \<Rightarrow> TypeError))"

section \<open>The interactive session\<close>

text \<open>
  The module-level variables \<open>servers\<close> and \<open>cursor\<close>, passed from one keystroke to the
  next. \<open>cursor\<close> is a JavaScript number; \<open>%\<close> is the remainder that takes the sign of
  the dividend, \<open>smod\<close> on integers. The handler runs only after the check that the
  list is not empty, so the divisor is never zero. What the program prints (\<open>render\<close>,
  the messages of \<open>cleanup\<close>) changes neither the list nor the file and is left out.
\<close>

record session =
  servers :: "server list"
  cursor :: int

datatype step = Next session | Cleanup bool | Uncaught

definition ESC :: string where
  "ESC = [CHR 0x1B]"

text \<open>
  The listener of \<open>process.stdin.on('data', ...)\<close>, one call per chunk of input.
  \<open>Cleanup save\<close> is the call \<open>cleanup(save)\<close>; \<open>Uncaught\<close> is the \<open>TypeError\<close> of
  reading \<open>enabled\<close> of \<open>undefined\<close>, should \<open>cursor\<close> not be an index of the list.
\<close>

definition handle_key :: "string \<Rightarrow> session \<Rightarrow> step" where
  "handle_key key s =
     (if key = [CHR 0x03] then Cleanup False
      else if key = ESC \<and> length key = 1 then Cleanup False
      else if key = [CHR 0x0D] \<or> key = [CHR 0x0A] then Cleanup True
      else if key = ESC @ ''[A'' \<or> key = ''k'' then
        Next (s\<lparr>cursor := (cursor s - 1 + int (length (servers s))) smod int (length (servers s))\<rparr>)
      else if key = ESC @ ''[B'' \<or> key = ''j'' then
        Next (s\<lparr>cursor := (cursor s + 1) smod int (length (servers s))\<rparr>)
      else if key = '' '' then
        (if 0 \<le> cursor s \<and> cursor s < int (length (servers s)) then
           Next (s\<lparr>servers := (servers s)[nat (cursor s) :=
                   (servers s ! nat (cursor s))\<lparr>enabled := \<not> enabled (servers s ! nat (cursor s))\<rparr>]\<rparr>)
         else Uncaught)
      else if key = ''a'' then
        Next (s\<lparr>servers := map (\<lambda>x. x\<lparr>enabled := True\<rparr>) (servers s)\<rparr>)
      else if key = ''n'' then
        Next (s\<lparr>servers := map (\<lambda>x. x\<lparr>enabled := False\<rparr>) (servers s)\<rparr>)
      else Next s)"

text \<open>
  The world outside the program. The file is a value of any type \<open>'f\<close>: \<open>readJSON\<close>
  reads and parses it (\<open>None\<close> when reading or parsing throws), \<open>stringify\<close> gives the
  contents that \<open>writeFileSync\<close> stores for a document, and \<open>writable\<close> says whether
  \<open>writeFileSync\<close> succeeds; when it does not, its exception is not caught by anyone.
  \<open>writes\<close> counts the writes that were made.
\<close>

record 'f env =
  readJSON :: "'f \<Rightarrow> json option"
  stringify :: "json \<Rightarrow> 'f"
  writable :: bool
  process_cwd :: string
  isTTY :: bool

record 'f disk =
  contents :: 'f
  writes :: nat

text \<open>
  How a run stands when its input is used up: exited with a code, or still waiting for
  a keystroke. An exception that nothing catches ends the process with code 1.
\<close>

datatype 'f outcome = Exited nat "'f disk" | Waiting "'f disk"

definition cleanup :: "'f env \<Rightarrow> bool \<Rightarrow> session \<Rightarrow> 'f disk \<Rightarrow> 'f outcome" where
  "cleanup e save s d =
     (if save then
        (case saveState (servers s) (readJSON e (contents d)) (process_cwd e) of
           NotWritten \<Rightarrow> Exited 0 d
         | TypeError \<Rightarrow> Exited 1 d
         | Written doc \<Rightarrow>
             if writable e
             then Exited 0 \<lparr>contents = stringify e doc, writes = writes d + 1\<rparr>
             else Exited 1 d)
      else Exited 0 d)"

fun input_loop :: "'f env \<Rightarrow> string list \<Rightarrow> session \<Rightarrow> 'f disk \<Rightarrow> 'f outcome" where
  "input_loop e [] s d = Waiting d"
| "input_loop e (key # keys) s d =
     (case handle_key key s of
        Next s' \<Rightarrow> input_loop e keys s' d
      | Cleanup save \<Rightarrow> cleanup e save s d
      | Uncaught \<Rightarrow> Exited 1 d)"

text \<open>The module body: load, refuse an empty list, \<open>start()\<close>, then the keystrokes.\<close>

definition program :: "'f env \<Rightarrow> 'f disk \<Rightarrow> string list \<Rightarrow> 'f outcome" where
  "program e d keys =
     (case loadServers (readJSON e (contents d)) (process_cwd e) of
        Inl err \<Rightarrow> Exited 1 d
      | Inr loaded \<Rightarrow>
          if length loaded = 0 then Exited 1 d
          else if \<not> isTTY e then Exited 1 d
          else input_loop e keys \<lparr>servers = loaded, cursor = 0\<rparr> d)"

section \<open>Reading a document as four mappings\<close>

text \<open>
  The four places of a document that hold servers, named by scope and by enabled flag,
  each read the way the loader reads it: \<open>holder\<close> is the object that carries the two
  mappings of a scope, \<open>mapping_key\<close> the property of the active or the disabled one,
  \<open>mapping\<close> its names with their configs. A mapping that is absent or falsy has no
  names.
\<close>

definition holder :: "json \<Rightarrow> string \<Rightarrow> scope \<Rightarrow> json option" where
  "holder doc pcwd sc =
     (case sc of User \<Rightarrow> Some doc | Local \<Rightarrow> project_entry doc (normalize_cwd pcwd))"

definition mapping_key :: "bool \<Rightarrow> string" where
  "mapping_key en = (if en then ''mcpServers'' else ''_disabledMcpServers'')"

definition mapping :: "json \<Rightarrow> string \<Rightarrow> scope \<Rightarrow> bool \<Rightarrow> members" where
  "mapping doc pcwd sc en = entries_at (holder doc pcwd sc) (mapping_key en)"

definition names_of :: "json \<Rightarrow> string \<Rightarrow> scope \<Rightarrow> bool \<Rightarrow> string set" where
  "names_of doc pcwd sc en = fst ` set (mapping doc pcwd sc en)"

text \<open>The list entry the loader makes of a name and its config.\<close>

definition entry :: "scope \<Rightarrow> bool \<Rightarrow> string \<times> json \<Rightarrow> server" where
  "entry src en m = \<lparr>name = fst m, source = src, enabled = en, config = snd m\<rparr>"

text \<open>
  What a list is to be written as: the names with their configs of the entries of one
  scope and one value of the enabled flag, in the order of the list.
\<close>

definition written :: "server list \<Rightarrow> scope \<Rightarrow> bool \<Rightarrow> members" where
  "written ss sc en =
     map (\<lambda>s. (name s, config s)) (filter (\<lambda>s. source s = sc \<and> enabled s = en) ss)"

text \<open>Every name of the four mappings of a document, with its repetitions.\<close>

definition all_names :: "json \<Rightarrow> string \<Rightarrow> string list" where
  "all_names doc pcwd =
     map fst (mapping doc pcwd User True @ mapping doc pcwd User False
              @ mapping doc pcwd Local True @ mapping doc pcwd Local False)"

text \<open>
  A configuration document in the sense of the interface description: a JSON object
  whose project entry for the working directory, when there is one, is a JSON object
  again.
\<close>

fun is_object :: "json \<Rightarrow> bool" where
  "is_object (JObject ms) = True"
| "is_object v = False"

definition config_document :: "json \<Rightarrow> string \<Rightarrow> bool" where
  "config_document doc pcwd =
     (is_object doc \<and>
      (case project_entry doc (normalize_cwd pcwd) of
         None \<Rightarrow> True
       | Some projectEntry \<Rightarrow> is_object projectEntry))"

section \<open>Keys that end a run\<close>

text \<open>
  The keys of the first three tests of the listener: Ctrl-C (the interrupt, which raw
  mode delivers as a character) and a lone Escape cancel; Return and Newline confirm.
  \<open>in_range\<close> says that the cursor is an index of the list.
\<close>

definition is_cancel :: "string \<Rightarrow> bool" where
  "is_cancel key = (key = [CHR 0x03] \<or> key = ESC)"

definition is_confirm :: "string \<Rightarrow> bool" where
  "is_confirm key = (key = [CHR 0x0D] \<or> key = [CHR 0x0A])"

definition is_stop :: "string \<Rightarrow> bool" where
  "is_stop key = (is_cancel key \<or> is_confirm key)"

definition in_range :: "session \<Rightarrow> bool" where
  "in_range s = (0 \<le> cursor s \<and> cursor s < int (length (servers s)))"

section \<open>Documents used as examples\<close>

text \<open>The document of the scenario of the specification.\<close>

definition scenario_doc :: json where
  "scenario_doc = JObject
     [(''mcpServers'', JObject [(''a'', JObject [(''x'', JNumber 1)])]),
      (''_disabledMcpServers'', JObject [(''b'', JObject [(''y'', JNumber 2)])])]"

text \<open>
  A name that is disabled for the user, and both active and disabled in the project
  \<open>/w\<close>.
\<close>

definition shadow_doc :: json where
  "shadow_doc = JObject
     [(''_disabledMcpServers'', JObject [(''a'', JNumber 1)]),
      (''projects'', JObject
         [(''/w'', JObject
            [(''mcpServers'', JObject [(''a'', JNumber 2)]),
             (''_disabledMcpServers'', JObject [(''a'', JNumber 3)])])])]"

text \<open>Names that occur in several of the four mappings, with a different config in each.\<close>

definition mixed_doc :: json where
  "mixed_doc = JObject
     [(''mcpServers'', JObject [(''a'', JNumber 1)]),
      (''_disabledMcpServers'', JObject [(''a'', JNumber 2), (''b'', JNumber 3)]),
      (''projects'', JObject
         [(''/w'', JObject
            [(''mcpServers'', JObject [(''a'', JNumber 4), (''c'', JNumber 5)]),
             (''_disabledMcpServers'', JObject [(''c'', JNumber 6), (''d'', JNumber 7)])])])]"

text \<open>One name, active for the user and active in the project \<open>/w\<close>.\<close>

definition cross_doc :: json where
  "cross_doc = JObject
     [(''mcpServers'', JObject [(''a'', JNumber 1)]),
      (''projects'', JObject [(''/w'', JObject [(''mcpServers'', JObject [(''a'', JNumber 2)])])])]"

text \<open>Four names, one in each mapping, and a key that is no business of the program.\<close>

definition full_doc :: json where
  "full_doc = JObject
     [(''mcpServers'', JObject [(''a'', JNumber 1)]),
      (''_disabledMcpServers'', JObject [(''b'', JNumber 2)]),
      (''theme'', JString ''dark''),
      (''projects'', JObject
         [(''/w'', JObject
            [(''mcpServers'', JObject [(''c'', JNumber 3)]),
             (''_disabledMcpServers'', JObject [(''d'', JNumber 4)])])])]"

text \<open>A server whose name is \<open>__proto__\<close>.\<close>

definition proto_doc :: json where
  "proto_doc = JObject
     [(''mcpServers'', JObject [(''__proto__'', JObject [(''command'', JString ''x'')])])]"

text \<open>
  A file with one disabled server in the project \<open>/w\<close>, and the same file after
  something else has removed the project entry.
\<close>

definition local_doc :: json where
  "local_doc = JObject
     [(''projects'', JObject [(''/w'', JObject [(''_disabledMcpServers'', JObject [(''c'', JNumber 5)])])])]"

definition moved_doc :: json where
  "moved_doc = JObject [(''projects'', JObject [])]"

text \<open>A project entry that is a number.\<close>

definition odd_doc :: json where
  "odd_doc = JObject
     [(''mcpServers'', JObject [(''a'', JNumber 1)]),
      (''projects'', JObject [(''/w'', JNumber 5)])]"

text \<open>
  A world in which the file is its own parse result, every document can be printed, the
  file can be written, the working directory is \<open>/w\<close> and the input is a terminal.
\<close>

definition plain_env :: "(json option) env" where
  "plain_env = \<lparr>readJSON = (\<lambda>f. f), stringify = Some, writable = True,
                 process_cwd = ''/w'', isTTY = True\<rparr>"

section \<open>Properties, decimal names, and the loader in closed form\<close>

lemma define_prop_fresh: "k \<notin> fst ` set ms \<Longrightarrow> define_prop ms k v = ms @ [(k, v)]"
  by (induction ms) (auto simp: define_prop_def)

lemma distinct_define_prop: "distinct (map fst ms) \<Longrightarrow> distinct (map fst (define_prop ms k v))"
  by (simp add: define_prop_def distinct_update)

lemma map_of_define_prop: "map_of (define_prop ms k v) = (map_of ms)(k \<mapsto> v)"
  by (simp add: define_prop_def update_conv')

lemma foldl_define_distinct:
  "distinct (map fst acc) \<Longrightarrow> distinct (map fst (foldl (\<lambda>acc (k, v). define_prop acc k v) acc ms))"
  by (induction ms arbitrary: acc) (auto simp: distinct_define_prop)

lemma distinct_own_props: "distinct (map fst (own_props ms))"
  by (simp add: own_props_def foldl_define_distinct)

lemma foldl_define_id:
  "distinct (map fst (acc @ ms)) \<Longrightarrow> foldl (\<lambda>acc (k, v). define_prop acc k v) acc ms = acc @ ms"
proof (induction ms arbitrary: acc)
  case Nil
  then show ?case by simp
next
  case (Cons m ms)
  obtain k v where m: "m = (k, v)" by (cases m)
  from Cons.prems have fresh: "k \<notin> fst ` set acc" by (auto simp: m)
  from Cons.prems have "distinct (map fst ((acc @ [(k, v)]) @ ms))" by (auto simp: m)
  from Cons.IH [OF this] show ?case by (simp add: m define_prop_fresh [OF fresh])
qed

lemma own_props_id: "distinct (map fst ms) \<Longrightarrow> own_props ms = ms"
  using foldl_define_id [of "[]" ms] by (simp add: own_props_def)

lemma dec_nonempty: "dec n \<noteq> []"
  by (subst dec.simps) simp

lemma digit_inj: "a < 10 \<Longrightarrow> b < 10 \<Longrightarrow> digit a = digit b \<Longrightarrow> a = b"
proof -
  assume a: "a < 10" and b: "b < 10" and e: "digit a = digit b"
  have d: "distinct ''0123456789''" by simp
  have "a < length ''0123456789''" "b < length ''0123456789''" using a b by simp_all
  with d e show "a = b" unfolding digit_def by (simp only: nth_eq_iff_index_eq)
qed

lemma dec_inj: "dec n = dec m \<Longrightarrow> n = m"
proof (induction n arbitrary: m rule: dec.induct)
  case (1 n)
  show ?case
  proof (cases "n < 10")
    case True
    have dn: "dec n = [digit n]" using True by (subst dec.simps) simp
    show ?thesis
    proof (cases "m < 10")
      case mlt: True
      have "dec m = [digit m]" using mlt by (subst dec.simps) simp
      with dn "1.prems" have "digit n = digit m" by simp
      with True mlt show ?thesis by (rule digit_inj)
    next
      case False
      have "dec m = dec (m div 10) @ [digit (m mod 10)]" using False by (subst dec.simps) simp
      with dn "1.prems" have "dec (m div 10) = []" by simp
      with dec_nonempty show ?thesis by blast
    qed
  next
    case False
    have dn: "dec n = dec (n div 10) @ [digit (n mod 10)]" using False by (subst dec.simps) simp
    show ?thesis
    proof (cases "m < 10")
      case True
      have "dec m = [digit m]" using True by (subst dec.simps) simp
      with dn "1.prems" have "dec (n div 10) = []" by simp
      with dec_nonempty show ?thesis by blast
    next
      case mge: False
      have "dec m = dec (m div 10) @ [digit (m mod 10)]" using mge by (subst dec.simps) simp
      with dn "1.prems" have q: "dec (n div 10) = dec (m div 10)"
        and r: "digit (n mod 10) = digit (m mod 10)" by simp_all
      from "1.IH" [OF False q] have "n div 10 = m div 10" .
      moreover from r have "n mod 10 = m mod 10" by (intro digit_inj) simp_all
      ultimately show ?thesis by (metis div_mult_mod_eq)
    qed
  qed
qed

lemma distinct_dec_upt: "distinct (map dec [0..<n])"
  by (simp add: distinct_map inj_on_def dec_inj)

lemma distinct_own_entries: "distinct (map fst (own_entries v))"
  by (cases v) (simp_all add: distinct_own_props distinct_dec_upt)

lemma distinct_entries_at: "distinct (map fst (entries_at h k))"
  by (simp add: entries_at_def distinct_own_entries split: option.splits)

lemma push_all_eq:
  "push_all src en es (ss, seen) = (ss @ map (entry src en) es, seen \<union> fst ` set es)"
  by (induction es arbitrary: ss seen) (auto simp: entry_def)

lemma push_unseen_eq:
  "distinct (map fst es) \<Longrightarrow>
   push_unseen src en es (ss, seen) =
     (ss @ map (entry src en) (filter (\<lambda>m. fst m \<notin> seen) es), seen \<union> fst ` set es)"
proof (induction es arbitrary: ss seen)
  case Nil
  then show ?case by simp
next
  case (Cons m es)
  obtain k v where m: "m = (k, v)" by (cases m)
  from Cons.prems have k: "k \<notin> fst ` set es" and d: "distinct (map fst es)" by (auto simp: m)
  have same: "filter (\<lambda>m. fst m \<noteq> k \<and> fst m \<notin> seen) es = filter (\<lambda>m. fst m \<notin> seen) es"
    using k by (intro filter_cong) auto
  show ?case
    by (cases "k \<in> seen") (auto simp: m Cons.IH [OF d] same entry_def)
qed

lemma loadServers_eq:
  assumes "truthy doc"
  shows "loadServers (Some doc) pcwd =
    Inr (map (entry User True) (mapping doc pcwd User True)
       @ map (entry User False)
           (filter (\<lambda>m. fst m \<notin> names_of doc pcwd User True) (mapping doc pcwd User False))
       @ map (entry Local True)
           (filter (\<lambda>m. fst m \<notin> names_of doc pcwd User True \<union> names_of doc pcwd User False)
              (mapping doc pcwd Local True))
       @ map (entry Local False)
           (filter (\<lambda>m. fst m \<notin> names_of doc pcwd User True \<union> names_of doc pcwd User False
                               \<union> names_of doc pcwd Local True)
              (mapping doc pcwd Local False)))"
  using assms
  by (simp add: loadServers_def Let_def push_all_eq push_unseen_eq distinct_entries_at
      mapping_def holder_def mapping_key_def names_of_def)

section \<open>The loader\<close>

lemmas json_eval =
  own_props_def define_prop_def delete_prop_def assign_def entries_at_def project_entry_def
  normalize_cwd_def holder_def mapping_key_def mapping_def names_of_def entry_def

lemma entry_simps [simp]:
  "name (entry src en m) = fst m" "source (entry src en m) = src"
  "enabled (entry src en m) = en" "config (entry src en m) = snd m"
  by (simp_all add: entry_def)

lemma loadServers_truthy: "loadServers r pcwd = Inr ss \<Longrightarrow> \<exists>doc. r = Some doc \<and> truthy doc"
  by (auto simp: loadServers_def split: option.splits if_splits)

lemma in_set_fst: "(k, v) \<in> set xs \<Longrightarrow> k \<in> fst ` set xs"
  by force

lemma distinct_mapping: "distinct (map fst (mapping doc pcwd sc en))"
  by (simp add: mapping_def distinct_entries_at)

lemma loaded_form:
  assumes "loadServers (Some doc) pcwd = Inr ss"
  shows "ss = map (entry User True) (mapping doc pcwd User True)
       @ map (entry User False)
           (filter (\<lambda>m. fst m \<notin> names_of doc pcwd User True) (mapping doc pcwd User False))
       @ map (entry Local True)
           (filter (\<lambda>m. fst m \<notin> names_of doc pcwd User True \<union> names_of doc pcwd User False)
              (mapping doc pcwd Local True))
       @ map (entry Local False)
           (filter (\<lambda>m. fst m \<notin> names_of doc pcwd User True \<union> names_of doc pcwd User False
                               \<union> names_of doc pcwd Local True)
              (mapping doc pcwd Local False))"
proof -
  from assms have "truthy doc" using loadServers_truthy by blast
  from loadServers_eq [OF this] assms show ?thesis by simp
qed

lemma loaded_distinct:
  assumes "loadServers (Some doc) pcwd = Inr ss"
  shows "distinct (map name ss)"
proof -
  have nm: "\<And>src en es. map name (map (entry src en) es) = map fst es"
    by (simp add: comp_def)
  have d: "\<And>sc en P. distinct (map fst (filter P (mapping doc pcwd sc en)))"
    by (simp add: distinct_mapping distinct_map_filter)
  show ?thesis
    unfolding loaded_form [OF assms] map_append nm distinct_append
    using d distinct_mapping by (auto simp: names_of_def dest: in_set_fst)
qed

lemma loaded_local_fresh:
  assumes "loadServers (Some doc) pcwd = Inr ss" and "s \<in> set ss" and "source s = Local"
  shows "name s \<notin> names_of doc pcwd User True \<union> names_of doc pcwd User False"
  using assms(2,3) unfolding loaded_form [OF assms(1)]
  by (auto simp: names_of_def dest: in_set_fst)

text \<open>
  Claim C10. For every document the loader returns a list for, no two entries of the
  list have the same name, whatever their scopes: one set of seen names serves all four
  sources, so no entry of the local scope carries a name that one of the two global
  mappings has.
\<close>

theorem loaded_names_unique:
  "loadServers (Some doc) pcwd = Inr ss \<Longrightarrow>
   distinct (map name ss) \<and>
   (\<forall>s \<in> set ss. source s = Local \<longrightarrow>
      name s \<notin> names_of doc pcwd User True \<union> names_of doc pcwd User False)"
  using loaded_distinct loaded_local_fresh by blast

lemma mixed_load:
  "loadServers (Some mixed_doc) ''/w'' =
     Inr [\<lparr>name = ''a'', source = User, enabled = True, config = JNumber 1\<rparr>,
          \<lparr>name = ''b'', source = User, enabled = False, config = JNumber 3\<rparr>,
          \<lparr>name = ''c'', source = Local, enabled = True, config = JNumber 5\<rparr>,
          \<lparr>name = ''d'', source = Local, enabled = False, config = JNumber 7\<rparr>]"
  by (simp add: mixed_doc_def loadServers_def json_eval)

theorem loaded_names_unique_witness:
  "loadServers (Some mixed_doc) ''/w'' =
     Inr [\<lparr>name = ''a'', source = User, enabled = True, config = JNumber 1\<rparr>,
          \<lparr>name = ''b'', source = User, enabled = False, config = JNumber 3\<rparr>,
          \<lparr>name = ''c'', source = Local, enabled = True, config = JNumber 5\<rparr>,
          \<lparr>name = ''d'', source = Local, enabled = False, config = JNumber 7\<rparr>] \<and>
   distinct [''a'', ''b'', ''c'', ''d''] \<and>
   ''a'' \<in> names_of mixed_doc ''/w'' Local True \<and>
   ''c'' \<notin> names_of mixed_doc ''/w'' User True \<union> names_of mixed_doc ''/w'' User False \<and>
   ''d'' \<notin> names_of mixed_doc ''/w'' User True \<union> names_of mixed_doc ''/w'' User False"
proof -
  have "''a'' \<in> names_of mixed_doc ''/w'' Local True"
    by (simp add: mixed_doc_def json_eval)
  with loaded_names_unique [OF mixed_load] mixed_load show ?thesis by simp
qed

lemma filter_key:
  "distinct (map fst es) \<Longrightarrow>
   filter (\<lambda>m. fst m = k) es = (case map_of es k of None \<Rightarrow> [] | Some v \<Rightarrow> [(k, v)])"
proof (induction es)
  case Nil
  then show ?case by simp
next
  case (Cons m es)
  then have "fst m = k \<Longrightarrow> map_of es k = None"
    by (auto simp: map_of_eq_None_iff)
  with Cons show ?case by (cases m) (auto split: option.splits)
qed

lemma select_entries:
  assumes "distinct (map fst es)"
  shows "filter (\<lambda>s. name s = nm) (map (entry src en) (filter (\<lambda>m. fst m \<notin> K) es)) =
     (if nm \<in> K then []
      else (case map_of es nm of None \<Rightarrow> [] | Some c \<Rightarrow> [entry src en (nm, c)]))"
proof -
  have "filter (\<lambda>s. name s = nm) (map (entry src en) (filter (\<lambda>m. fst m \<notin> K) es)) =
        map (entry src en) (filter (\<lambda>m. fst m \<notin> K) (filter (\<lambda>m. fst m = nm) es))"
    by (simp add: filter_map comp_def conj_commute)
  also have "\<dots> = (if nm \<in> K then []
      else (case map_of es nm of None \<Rightarrow> [] | Some c \<Rightarrow> [entry src en (nm, c)]))"
    by (simp add: filter_key [OF assms] split: option.splits)
  finally show ?thesis .
qed

lemma loader_select:
  assumes "loadServers (Some doc) pcwd = Inr ss"
  shows "filter (\<lambda>s. name s = nm) ss =
    (case map_of (mapping doc pcwd User True) nm of
       Some c \<Rightarrow> [entry User True (nm, c)]
     | None \<Rightarrow>
       (case map_of (mapping doc pcwd User False) nm of
          Some c \<Rightarrow> [entry User False (nm, c)]
        | None \<Rightarrow>
          (case map_of (mapping doc pcwd Local True) nm of
             Some c \<Rightarrow> [entry Local True (nm, c)]
           | None \<Rightarrow>
             (case map_of (mapping doc pcwd Local False) nm of
                Some c \<Rightarrow> [entry Local False (nm, c)]
              | None \<Rightarrow> []))))"
proof -
  have ss: "ss = map (entry User True) (filter (\<lambda>m. fst m \<notin> {}) (mapping doc pcwd User True))
       @ map (entry User False)
           (filter (\<lambda>m. fst m \<notin> names_of doc pcwd User True) (mapping doc pcwd User False))
       @ map (entry Local True)
           (filter (\<lambda>m. fst m \<notin> names_of doc pcwd User True \<union> names_of doc pcwd User False)
              (mapping doc pcwd Local True))
       @ map (entry Local False)
           (filter (\<lambda>m. fst m \<notin> names_of doc pcwd User True \<union> names_of doc pcwd User False
                               \<union> names_of doc pcwd Local True)
              (mapping doc pcwd Local False))"
    using loaded_form [OF assms] by simp
  have none: "\<And>sc en. (map_of (mapping doc pcwd sc en) nm = None) = (nm \<notin> names_of doc pcwd sc en)"
    by (simp add: names_of_def map_of_eq_None_iff)
  show ?thesis
    unfolding ss filter_append select_entries [OF distinct_mapping]
    by (cases "map_of (mapping doc pcwd User True) nm";
        cases "map_of (mapping doc pcwd User False) nm";
        cases "map_of (mapping doc pcwd Local True) nm";
        cases "map_of (mapping doc pcwd Local False) nm")
       (simp_all add: none [symmetric])
qed

text \<open>
  Claim C3, as amended. When a name is in both the active and the disabled mapping of one
  scope, the loader makes exactly one entry of that name, and the entry is that of the
  first of the four sources, in the order global active, global disabled, local active,
  local disabled, that has the name. For the global scope this is the active mapping,
  with \<open>enabled\<close> true; for the local scope it is the local active mapping unless a
  global mapping has the name too, and then the entry is the global one.
\<close>

theorem first_source_wins:
  assumes "loadServers (Some doc) pcwd = Inr ss"
    and "nm \<in> names_of doc pcwd sc True" and "nm \<in> names_of doc pcwd sc False"
  shows "\<exists>src en c.
      filter (\<lambda>s. name s = nm) ss = [\<lparr>name = nm, source = src, enabled = en, config = c\<rparr>] \<and>
      map_of (mapping doc pcwd src en) nm = Some c \<and>
      (src, en) = (if nm \<in> names_of doc pcwd User True then (User, True)
                   else if nm \<in> names_of doc pcwd User False then (User, False)
                   else (Local, True))"
proof -
  have some: "\<And>sc en. nm \<in> names_of doc pcwd sc en \<Longrightarrow> \<exists>c. map_of (mapping doc pcwd sc en) nm = Some c"
    by (metis names_of_def map_of_eq_None_iff not_Some_eq)
  have none: "\<And>sc en. nm \<notin> names_of doc pcwd sc en \<Longrightarrow> map_of (mapping doc pcwd sc en) nm = None"
    by (simp add: names_of_def map_of_eq_None_iff)
  show ?thesis
  proof (cases "nm \<in> names_of doc pcwd User True")
    case True
    then obtain c where "map_of (mapping doc pcwd User True) nm = Some c" using some by blast
    with True show ?thesis
      by (intro exI [of _ User] exI [of _ True] exI [of _ c])
         (simp add: loader_select [OF assms(1)] entry_def)
  next
    case nt: False
    show ?thesis
    proof (cases "nm \<in> names_of doc pcwd User False")
      case True
      then obtain c where "map_of (mapping doc pcwd User False) nm = Some c" using some by blast
      with True nt none show ?thesis
        by (intro exI [of _ User] exI [of _ False] exI [of _ c])
           (simp add: loader_select [OF assms(1)] entry_def)
    next
      case False
      with nt assms(2) have sc: "sc = Local" by (cases sc) auto
      with assms(2) obtain c where "map_of (mapping doc pcwd Local True) nm = Some c"
        using some by blast
      with False nt none show ?thesis
        by (intro exI [of _ Local] exI [of _ True] exI [of _ c])
           (simp add: loader_select [OF assms(1)] entry_def)
    qed
  qed
qed



theorem first_source_wins_witness:
  "loadServers (Some mixed_doc) ''/w'' =
     Inr [\<lparr>name = ''a'', source = User, enabled = True, config = JNumber 1\<rparr>,
          \<lparr>name = ''b'', source = User, enabled = False, config = JNumber 3\<rparr>,
          \<lparr>name = ''c'', source = Local, enabled = True, config = JNumber 5\<rparr>,
          \<lparr>name = ''d'', source = Local, enabled = False, config = JNumber 7\<rparr>] \<and>
   ''c'' \<in> names_of mixed_doc ''/w'' Local True \<and>
   ''c'' \<in> names_of mixed_doc ''/w'' Local False \<and>
   (\<exists>src en c.
      filter (\<lambda>s. name s = ''c'')
        [\<lparr>name = ''a'', source = User, enabled = True, config = JNumber 1\<rparr>,
         \<lparr>name = ''b'', source = User, enabled = False, config = JNumber 3\<rparr>,
         \<lparr>name = ''c'', source = Local, enabled = True, config = JNumber 5\<rparr>,
         \<lparr>name = ''d'', source = Local, enabled = False, config = JNumber 7\<rparr>]
        = [\<lparr>name = ''c'', source = src, enabled = en, config = c\<rparr>] \<and>
      map_of (mapping mixed_doc ''/w'' src en) ''c'' = Some c \<and>
      (src, en) = (if ''c'' \<in> names_of mixed_doc ''/w'' User True then (User, True)
                   else if ''c'' \<in> names_of mixed_doc ''/w'' User False then (User, False)
                   else (Local, True)))"
proof -
  have a: "''c'' \<in> names_of mixed_doc ''/w'' Local True"
    by (simp add: mixed_doc_def json_eval)
  have b: "''c'' \<in> names_of mixed_doc ''/w'' Local False"
    by (simp add: mixed_doc_def json_eval)
  from first_source_wins [OF mixed_load a b] mixed_load a b show ?thesis by blast
qed

text \<open>
  Claim C3 as stated fails: in \<open>shadow_doc\<close> the name \<open>a\<close> is in the active and in the
  disabled mapping of the local scope, and its one entry is disabled, taken from the
  global disabled mapping.
\<close>

theorem enabled_from_active_counterexample:
  "''a'' \<in> names_of shadow_doc ''/w'' Local True \<and>
   ''a'' \<in> names_of shadow_doc ''/w'' Local False \<and>
   loadServers (Some shadow_doc) ''/w'' =
     Inr [\<lparr>name = ''a'', source = User, enabled = False, config = JNumber 1\<rparr>]"
  by (simp add: shadow_doc_def loadServers_def json_eval)

section \<open>The scenario\<close>

text \<open>
  Claim C7. For the document of the scenario, which has no project entry for any working
  directory, the loader gives the list of \<open>a\<close> (global, enabled) and \<open>b\<close> (global,
  disabled) in this order; the toggle key on \<open>a\<close> turns it off; and saving the list so
  toggled writes the document with an empty active mapping and with \<open>a\<close> and \<open>b\<close>
  in the disabled mapping.
\<close>

theorem scenario:
  "loadServers (Some scenario_doc) pcwd =
     Inr [\<lparr>name = ''a'', source = User, enabled = True, config = JObject [(''x'', JNumber 1)]\<rparr>,
          \<lparr>name = ''b'', source = User, enabled = False, config = JObject [(''y'', JNumber 2)]\<rparr>] \<and>
   handle_key '' ''
     \<lparr>servers =
        [\<lparr>name = ''a'', source = User, enabled = True, config = JObject [(''x'', JNumber 1)]\<rparr>,
         \<lparr>name = ''b'', source = User, enabled = False, config = JObject [(''y'', JNumber 2)]\<rparr>],
      cursor = 0\<rparr> =
     Next \<lparr>servers =
        [\<lparr>name = ''a'', source = User, enabled = False, config = JObject [(''x'', JNumber 1)]\<rparr>,
         \<lparr>name = ''b'', source = User, enabled = False, config = JObject [(''y'', JNumber 2)]\<rparr>],
      cursor = 0\<rparr> \<and>
   saveState
     [\<lparr>name = ''a'', source = User, enabled = False, config = JObject [(''x'', JNumber 1)]\<rparr>,
      \<lparr>name = ''b'', source = User, enabled = False, config = JObject [(''y'', JNumber 2)]\<rparr>]
     (Some scenario_doc) pcwd =
     Written (JObject
       [(''mcpServers'', JObject []),
        (''_disabledMcpServers'',
           JObject [(''a'', JObject [(''x'', JNumber 1)]), (''b'', JObject [(''y'', JNumber 2)])])])"
  by (simp add: scenario_doc_def loadServers_def saveState_def store_def handle_key_def ESC_def
      json_eval)

section \<open>The cursor\<close>

text \<open>
  Claim C9. For a list of length \<open>n\<close> and a cursor \<open>i\<close> with \<open>0 \<le> i < n\<close>, a move-up key
  (arrow up or \<open>k\<close>) sets the cursor to \<open>(i - 1 + n) mod n\<close> and a move-down key (arrow
  down or \<open>j\<close>) sets it to \<open>(i + 1) mod n\<close>; both are indices of the list again.
\<close>

theorem cursor_wraps:
  assumes "0 \<le> cursor s" and "cursor s < int (length (servers s))"
  shows "(key = ESC @ ''[A'' \<or> key = ''k'' \<longrightarrow>
            handle_key key s =
              Next (s\<lparr>cursor := (cursor s - 1 + int (length (servers s))) mod int (length (servers s))\<rparr>)) \<and>
         (key = ESC @ ''[B'' \<or> key = ''j'' \<longrightarrow>
            handle_key key s =
              Next (s\<lparr>cursor := (cursor s + 1) mod int (length (servers s))\<rparr>)) \<and>
         0 \<le> (cursor s - 1 + int (length (servers s))) mod int (length (servers s)) \<and>
         (cursor s - 1 + int (length (servers s))) mod int (length (servers s)) < int (length (servers s)) \<and>
         0 \<le> (cursor s + 1) mod int (length (servers s)) \<and>
         (cursor s + 1) mod int (length (servers s)) < int (length (servers s))"
proof -
  let ?n = "int (length (servers s))"
  from assms have n: "0 < ?n" by linarith
  from assms have up: "(cursor s - 1 + ?n) smod ?n = (cursor s - 1 + ?n) mod ?n"
    by (intro smod_mod_positive) linarith+
  from assms have down: "(cursor s + 1) smod ?n = (cursor s + 1) mod ?n"
    by (intro smod_mod_positive) linarith+
  show ?thesis using n by (auto simp: handle_key_def ESC_def up down)
qed

theorem cursor_wraps_witness:
  "handle_key ''k'' \<lparr>servers = [\<lparr>name = ''a'', source = User, enabled = True, config = JNull\<rparr>,
                                 \<lparr>name = ''b'', source = User, enabled = True, config = JNull\<rparr>,
                                 \<lparr>name = ''c'', source = User, enabled = True, config = JNull\<rparr>],
                     cursor = 0\<rparr> =
     Next \<lparr>servers = [\<lparr>name = ''a'', source = User, enabled = True, config = JNull\<rparr>,
                      \<lparr>name = ''b'', source = User, enabled = True, config = JNull\<rparr>,
                      \<lparr>name = ''c'', source = User, enabled = True, config = JNull\<rparr>],
           cursor = 2\<rparr> \<and>
   handle_key ''j'' \<lparr>servers = [\<lparr>name = ''a'', source = User, enabled = True, config = JNull\<rparr>,
                                 \<lparr>name = ''b'', source = User, enabled = True, config = JNull\<rparr>,
                                 \<lparr>name = ''c'', source = User, enabled = True, config = JNull\<rparr>],
                     cursor = 0\<rparr> =
     Next \<lparr>servers = [\<lparr>name = ''a'', source = User, enabled = True, config = JNull\<rparr>,
                      \<lparr>name = ''b'', source = User, enabled = True, config = JNull\<rparr>,
                      \<lparr>name = ''c'', source = User, enabled = True, config = JNull\<rparr>],
           cursor = 1\<rparr>"
  using cursor_wraps [of "\<lparr>servers = [\<lparr>name = ''a'', source = User, enabled = True, config = JNull\<rparr>,
                                 \<lparr>name = ''b'', source = User, enabled = True, config = JNull\<rparr>,
                                 \<lparr>name = ''c'', source = User, enabled = True, config = JNull\<rparr>],
                     cursor = 0\<rparr>" "''k''"]
        cursor_wraps [of "\<lparr>servers = [\<lparr>name = ''a'', source = User, enabled = True, config = JNull\<rparr>,
                                 \<lparr>name = ''b'', source = User, enabled = True, config = JNull\<rparr>,
                                 \<lparr>name = ''c'', source = User, enabled = True, config = JNull\<rparr>],
                     cursor = 0\<rparr>" "''j''"]
  by (simp add: ESC_def)



section \<open>The writer\<close>

lemma assign_eq_define: "k \<noteq> ''__proto__'' \<Longrightarrow> assign ms k v = define_prop ms k v"
  by (simp add: assign_def)

lemma distinct_assign: "distinct (map fst ms) \<Longrightarrow> distinct (map fst (assign ms k v))"
  by (simp add: assign_def distinct_define_prop)

lemma distinct_delete_prop: "distinct (map fst ms) \<Longrightarrow> distinct (map fst (delete_prop ms k))"
  by (simp add: delete_prop_def distinct_delete)

lemma map_of_delete_prop: "map_of (delete_prop ms k) = (map_of ms)(k := None)"
  by (simp add: delete_prop_def delete_conv')

lemma distinct_rebuild:
  "distinct (map fst a) \<Longrightarrow> distinct (map fst d) \<Longrightarrow>
   distinct (map fst (fst (rebuild ss (a, d)))) \<and> distinct (map fst (snd (rebuild ss (a, d))))"
  by (induction ss arbitrary: a d) (auto simp: distinct_assign)

lemma rebuild_eq:
  "\<lbrakk>distinct (map name ss); ''__proto__'' \<notin> name ` set ss;
    name ` set ss \<inter> (fst ` set a \<union> fst ` set d) = {}\<rbrakk> \<Longrightarrow>
   rebuild ss (a, d) =
     (a @ map (\<lambda>s. (name s, config s)) (filter enabled ss),
      d @ map (\<lambda>s. (name s, config s)) (filter (\<lambda>s. \<not> enabled s) ss))"
proof (induction ss arbitrary: a d)
  case Nil
  then show ?case by simp
next
  case (Cons s ss)
  from Cons.prems have np: "name s \<noteq> ''__proto__''" by auto
  from Cons.prems have fa: "name s \<notin> fst ` set a" and fd: "name s \<notin> fst ` set d" by auto
  from Cons.prems have d: "distinct (map name ss)" and p: "''__proto__'' \<notin> name ` set ss"
    by auto
  show ?case
  proof (cases "enabled s")
    case True
    have "name ` set ss \<inter> (fst ` set (a @ [(name s, config s)]) \<union> fst ` set d) = {}"
      using Cons.prems by auto
    from Cons.IH [OF d p this] True show ?thesis
      by (simp add: assign_eq_define [OF np] define_prop_fresh [OF fa])
  next
    case False
    have "name ` set ss \<inter> (fst ` set a \<union> fst ` set (d @ [(name s, config s)])) = {}"
      using Cons.prems by auto
    from Cons.IH [OF d p this] False show ?thesis
      by (simp add: assign_eq_define [OF np] define_prop_fresh [OF fd])
  qed
qed

lemma distinct_store: "distinct (map fst ms) \<Longrightarrow> distinct (map fst (store ms ad))"
  by (simp add: store_def Let_def assign_eq_define distinct_define_prop distinct_delete_prop)

lemma map_of_store:
  "map_of (store ms ad) =
     (map_of ms)(''mcpServers'' \<mapsto> JObject (fst ad),
                 ''_disabledMcpServers'' := (if snd ad = [] then None else Some (JObject (snd ad))))"
  by (simp add: store_def Let_def assign_eq_define map_of_define_prop map_of_delete_prop)

lemma get_prop_distinct: "distinct (map fst ms) \<Longrightarrow> get_prop (JObject ms) k = map_of ms k"
  by (simp add: own_props_id)

lemma own_props_Nil: "own_props [] = []"
  by (simp add: own_props_def)

lemma get_prop_stored:
  assumes "distinct (map fst ms)"
  shows "get_prop (JObject (store ms ad)) k =
     (if k = ''_disabledMcpServers'' then (if snd ad = [] then None else Some (JObject (snd ad)))
      else if k = ''mcpServers'' then Some (JObject (fst ad))
      else map_of ms k)"
  by (subst get_prop_distinct [OF distinct_store [OF assms]]) (simp add: map_of_store)

lemma entries_at_stored:
  assumes "distinct (map fst ms)"
  shows "entries_at (Some (JObject (store ms ad))) (mapping_key en) =
     own_props (if en then fst ad else snd ad)"
  by (auto simp: entries_at_def get_prop_stored [OF assms] mapping_key_def own_props_Nil
      simp del: get_prop.simps)

lemma get_prop_projects_stored:
  "get_prop (JObject (store (own_props raw) ad)) ''projects'' = get_prop (JObject raw) ''projects''"
  by (subst get_prop_stored [OF distinct_own_props]) simp

lemma rebuild_scope:
  assumes "distinct (map name ss)" and "''__proto__'' \<notin> name ` set ss"
  shows "rebuild (filter (\<lambda>s. source s = sc) ss) ([], []) = (written ss sc True, written ss sc False)"
proof -
  have d: "distinct (map name (filter (\<lambda>s. source s = sc) ss))"
    using assms(1) by (simp add: distinct_map_filter)
  have p: "''__proto__'' \<notin> name ` set (filter (\<lambda>s. source s = sc) ss)"
    using assms(2) by auto
  have "rebuild (filter (\<lambda>s. source s = sc) ss) ([], []) =
     ([] @ map (\<lambda>s. (name s, config s)) (filter enabled (filter (\<lambda>s. source s = sc) ss)),
      [] @ map (\<lambda>s. (name s, config s)) (filter (\<lambda>s. \<not> enabled s) (filter (\<lambda>s. source s = sc) ss)))"
    by (rule rebuild_eq [OF d p]) simp
  then show ?thesis by (simp add: written_def conj_commute)
qed

lemma distinct_written: "distinct (map name ss) \<Longrightarrow> distinct (map fst (written ss sc en))"
  by (simp add: written_def comp_def distinct_map_filter)

lemma save_no_entry:
  assumes "project_entry (JObject raw) (normalize_cwd pcwd) = None"
  shows "saveState ss (Some (JObject raw)) pcwd =
     Written (JObject (store (own_props raw)
        (rebuild (filter (\<lambda>s. source s = User) ss) ([], []))))"
proof -
  let ?ms = "store (own_props raw) (rebuild (filter (\<lambda>s. source s = User) ss) ([], []))"
  from assms have
    "(case get_prop (JObject raw) ''projects'' of None \<Rightarrow> None
      | Some p \<Rightarrow> get_prop p (normalize_cwd pcwd)) = None"
    by (simp add: project_entry_def)
  then show ?thesis
    unfolding saveState_def Let_def
    by (simp only: get_prop_projects_stored split: option.splits json.splits)
       (auto split: option.splits json.splits)
qed

lemma save_entry:
  assumes "project_entry (JObject raw) (normalize_cwd pcwd) = Some (JObject eraw)"
  shows "\<exists>praw. get_prop (JObject raw) ''projects'' = Some (JObject praw) \<and>
     map_of (own_props praw) (normalize_cwd pcwd) = Some (JObject eraw) \<and>
     saveState ss (Some (JObject raw)) pcwd =
       Written (JObject (define_prop
          (store (own_props raw) (rebuild (filter (\<lambda>s. source s = User) ss) ([], [])))
          ''projects''
          (JObject (define_prop (own_props praw) (normalize_cwd pcwd)
             (JObject (store (own_props eraw)
                (rebuild (filter (\<lambda>s. source s = Local) ss) ([], []))))))))"
proof -
  from assms obtain p where p: "get_prop (JObject raw) ''projects'' = Some p"
    and e: "get_prop p (normalize_cwd pcwd) = Some (JObject eraw)"
    by (auto simp: project_entry_def split: option.splits)
  from e obtain praw where pr: "p = JObject praw" by (cases p) auto
  with e have m: "map_of (own_props praw) (normalize_cwd pcwd) = Some (JObject eraw)" by simp
  have "saveState ss (Some (JObject raw)) pcwd =
       Written (JObject (define_prop
          (store (own_props raw) (rebuild (filter (\<lambda>s. source s = User) ss) ([], [])))
          ''projects''
          (JObject (define_prop (own_props praw) (normalize_cwd pcwd)
             (JObject (store (own_props eraw)
                (rebuild (filter (\<lambda>s. source s = Local) ss) ([], []))))))))"
    unfolding saveState_def Let_def
    using p pr m by (simp only: get_prop_projects_stored) simp
  with p pr m show ?thesis by blast
qed

lemma entries_at_cong:
  "get_prop h k = get_prop h' k \<Longrightarrow> entries_at (Some h) k = entries_at (Some h') k"
  by (simp add: entries_at_def)

lemma mapping_key_not_projects: "mapping_key en \<noteq> ''projects''"
  by (simp add: mapping_key_def)

lemma distinct_fst_rebuild:
  "distinct (map fst (fst (rebuild ss ([], []))))" "distinct (map fst (snd (rebuild ss ([], []))))"
  using distinct_rebuild [of "[]" "[]" ss] by simp_all

lemma own_props_rebuild:
  "own_props (if en then fst (rebuild ss ([], [])) else snd (rebuild ss ([], []))) =
     (if en then fst (rebuild ss ([], [])) else snd (rebuild ss ([], [])))"
  by (simp add: own_props_id distinct_fst_rebuild)

text \<open>What the written document holds when the document read has no project entry.\<close>

lemma views_no_entry:
  assumes "project_entry (JObject raw) (normalize_cwd pcwd) = None"
    and "doc' = JObject (store (own_props raw) (rebuild (filter (\<lambda>s. source s = User) ss) ([], [])))"
  shows "mapping doc' pcwd User en =
           (if en then fst (rebuild (filter (\<lambda>s. source s = User) ss) ([], []))
            else snd (rebuild (filter (\<lambda>s. source s = User) ss) ([], [])))"
    and "holder doc' pcwd Local = None"
    and "get_prop doc' ''projects'' = get_prop (JObject raw) ''projects''"
proof -
  show "mapping doc' pcwd User en =
           (if en then fst (rebuild (filter (\<lambda>s. source s = User) ss) ([], []))
            else snd (rebuild (filter (\<lambda>s. source s = User) ss) ([], [])))"
    unfolding mapping_def holder_def assms(2) scope.case
    by (simp only: entries_at_stored [OF distinct_own_props] own_props_rebuild)
  show pr: "get_prop doc' ''projects'' = get_prop (JObject raw) ''projects''"
    unfolding assms(2) by (rule get_prop_projects_stored)
  from assms(1) show "holder doc' pcwd Local = None"
    by (simp only: holder_def scope.case project_entry_def pr)
qed

text \<open>What it holds when the project entry is an object.\<close>

lemma views_entry:
  assumes "doc' = JObject (define_prop
          (store (own_props raw) (rebuild (filter (\<lambda>s. source s = User) ss) ([], [])))
          ''projects''
          (JObject (define_prop (own_props praw) (normalize_cwd pcwd)
             (JObject (store (own_props eraw)
                (rebuild (filter (\<lambda>s. source s = Local) ss) ([], [])))))))"
  shows "mapping doc' pcwd sc en =
           (if en then fst (rebuild (filter (\<lambda>s. source s = sc) ss) ([], []))
            else snd (rebuild (filter (\<lambda>s. source s = sc) ss) ([], [])))"
    and "holder doc' pcwd Local =
           Some (JObject (store (own_props eraw)
                (rebuild (filter (\<lambda>s. source s = Local) ss) ([], []))))"
proof -
  let ?S = "store (own_props raw) (rebuild (filter (\<lambda>s. source s = User) ss) ([], []))"
  let ?E = "JObject (store (own_props eraw) (rebuild (filter (\<lambda>s. source s = Local) ss) ([], [])))"
  let ?P = "JObject (define_prop (own_props praw) (normalize_cwd pcwd) ?E)"
  have dS: "distinct (map fst ?S)" by (rule distinct_store [OF distinct_own_props])
  have dD: "distinct (map fst (define_prop ?S ''projects'' ?P))"
    by (rule distinct_define_prop [OF dS])
  have get: "\<And>k. get_prop doc' k = (if k = ''projects'' then Some ?P else get_prop (JObject ?S) k)"
    unfolding assms
    by (simp only: get_prop_distinct [OF dD] get_prop_distinct [OF dS] map_of_define_prop) simp
  have dP: "distinct (map fst (define_prop (own_props praw) (normalize_cwd pcwd) ?E))"
    by (rule distinct_define_prop [OF distinct_own_props])
  have gp: "get_prop doc' ''projects'' = Some ?P" by (simp only: get refl if_True)
  have ge: "get_prop ?P (normalize_cwd pcwd) = Some ?E"
    by (subst get_prop_distinct [OF dP]) (simp add: map_of_define_prop)
  have "project_entry doc' (normalize_cwd pcwd) = Some ?E"
    unfolding project_entry_def gp option.case by (rule ge)
  then show loc: "holder doc' pcwd Local = Some ?E" by (simp add: holder_def)
  have user: "mapping doc' pcwd User en =
           (if en then fst (rebuild (filter (\<lambda>s. source s = User) ss) ([], []))
            else snd (rebuild (filter (\<lambda>s. source s = User) ss) ([], [])))"
  proof -
    have "entries_at (Some doc') (mapping_key en) = entries_at (Some (JObject ?S)) (mapping_key en)"
      by (rule entries_at_cong) (simp only: get mapping_key_not_projects if_False)
    then show ?thesis
      unfolding mapping_def holder_def scope.case
      by (simp only: entries_at_stored [OF distinct_own_props] own_props_rebuild)
  qed
  have local: "mapping doc' pcwd Local en =
           (if en then fst (rebuild (filter (\<lambda>s. source s = Local) ss) ([], []))
            else snd (rebuild (filter (\<lambda>s. source s = Local) ss) ([], [])))"
    unfolding mapping_def loc
    by (simp only: entries_at_stored [OF distinct_own_props] own_props_rebuild)
  from user local show "mapping doc' pcwd sc en =
           (if en then fst (rebuild (filter (\<lambda>s. source s = sc) ss) ([], []))
            else snd (rebuild (filter (\<lambda>s. source s = sc) ss) ([], [])))"
    by (cases sc) simp_all
qed

lemma config_document_cases:
  assumes "config_document doc pcwd"
  obtains raw where "doc = JObject raw" "project_entry doc (normalize_cwd pcwd) = None"
  | raw eraw where "doc = JObject raw" "project_entry doc (normalize_cwd pcwd) = Some (JObject eraw)"
proof -
  from assms obtain raw where r: "doc = JObject raw"
    by (cases doc) (auto simp: config_document_def)
  show thesis
  proof (cases "project_entry doc (normalize_cwd pcwd)")
    case None
    with r that(1) show thesis by blast
  next
    case (Some e)
    with assms obtain eraw where "e = JObject eraw"
      by (cases e) (auto simp: config_document_def)
    with Some r that(2) show thesis by blast
  qed
qed

lemma save_partition:
  assumes d: "distinct (map name ss)" and p: "''__proto__'' \<notin> name ` set ss"
    and c: "config_document doc pcwd"
  shows "\<exists>doc'. saveState ss (Some doc) pcwd = Written doc' \<and>
           (\<forall>en. mapping doc' pcwd User en = written ss User en) \<and>
           (written ss User False = [] \<longrightarrow> get_prop doc' ''_disabledMcpServers'' = None) \<and>
           (holder doc pcwd Local = None \<longrightarrow> holder doc' pcwd Local = None) \<and>
           (holder doc pcwd Local \<noteq> None \<longrightarrow>
              (\<forall>en. mapping doc' pcwd Local en = written ss Local en) \<and>
              (\<exists>h. holder doc' pcwd Local = Some h \<and>
                 (written ss Local False = [] \<longrightarrow> get_prop h ''_disabledMcpServers'' = None)))"
proof -
  note rb = rebuild_scope [OF d p]
  from c show ?thesis
  proof (cases rule: config_document_cases)
    case (1 raw)
    let ?doc' = "JObject (store (own_props raw) (rebuild (filter (\<lambda>s. source s = User) ss) ([], [])))"
    have s: "saveState ss (Some doc) pcwd = Written ?doc'"
      using 1 save_no_entry by simp
    have v: "\<forall>en. mapping ?doc' pcwd User en = written ss User en"
      using views_no_entry(1) [OF 1(2) [unfolded 1(1)] refl, of ss] by (simp add: rb)
    have h: "holder ?doc' pcwd Local = None"
      using views_no_entry(2) [OF 1(2) [unfolded 1(1)] refl] .
    have k: "written ss User False = [] \<longrightarrow> get_prop ?doc' ''_disabledMcpServers'' = None"
      by (subst get_prop_stored [OF distinct_own_props]) (simp add: rb)
    have n: "holder doc pcwd Local = None" using 1(2) by (simp add: holder_def)
    from s v h k n show ?thesis by simp
  next
    case (2 raw eraw)
    from save_entry [OF 2(2) [unfolded 2(1)], of ss] obtain praw where
      s: "saveState ss (Some doc) pcwd =
       Written (JObject (define_prop
          (store (own_props raw) (rebuild (filter (\<lambda>s. source s = User) ss) ([], [])))
          ''projects''
          (JObject (define_prop (own_props praw) (normalize_cwd pcwd)
             (JObject (store (own_props eraw)
                (rebuild (filter (\<lambda>s. source s = Local) ss) ([], []))))))))"
      (is "_ = Written ?doc'")
      using 2(1) by auto
    have v: "\<And>sc en. mapping ?doc' pcwd sc en = written ss sc en"
      using views_entry(1) [OF refl, of raw ss praw pcwd eraw] by (simp add: rb)
    have h: "holder ?doc' pcwd Local =
        Some (JObject (store (own_props eraw) (rebuild (filter (\<lambda>s. source s = Local) ss) ([], []))))"
      using views_entry(2) [OF refl, of raw ss praw pcwd eraw] .
    have kl: "written ss Local False = [] \<longrightarrow>
        get_prop (JObject (store (own_props eraw) (rebuild (filter (\<lambda>s. source s = Local) ss) ([], []))))
          ''_disabledMcpServers'' = None"
      by (subst get_prop_stored [OF distinct_own_props]) (simp add: rb)
    have dS: "distinct (map fst (store (own_props raw) (rebuild (filter (\<lambda>s. source s = User) ss) ([], []))))"
      by (rule distinct_store [OF distinct_own_props])
    have ku: "written ss User False = [] \<longrightarrow> get_prop ?doc' ''_disabledMcpServers'' = None"
      by (subst get_prop_distinct [OF distinct_define_prop [OF dS]])
         (simp add: map_of_define_prop map_of_store rb)
    have n: "holder doc pcwd Local \<noteq> None" using 2(2) by (simp add: holder_def)
    from s v h kl ku n show ?thesis by simp
  qed
qed

lemma filter_fresh: "fst ` set ms \<inter> K = {} \<Longrightarrow> filter (\<lambda>m. fst m \<notin> K) ms = ms"
  by (induction ms) auto

lemma written_entries:
  "written (map (entry sc' en') ms) sc en = (if sc' = sc \<and> en' = en then ms else [])"
  by (induction ms) (auto simp: written_def)

lemma written_append: "written (xs @ ys) sc en = written xs sc en @ written ys sc en"
  by (simp add: written_def)

lemma loaded_names:
  assumes "loadServers (Some doc) pcwd = Inr ss"
  shows "name ` set ss \<subseteq> set (all_names doc pcwd)"
proof
  fix x assume "x \<in> name ` set ss"
  then obtain s where s: "s \<in> set ss" and x: "x = name s" by blast
  from s have "\<exists>sc en. name s \<in> fst ` set (mapping doc pcwd sc en)"
    by (subst (asm) loaded_form [OF assms]) force
  then show "x \<in> set (all_names doc pcwd)"
    unfolding x all_names_def by (metis (full_types) scope.exhaust set_map map_append set_append UnCI)
qed

lemma loaded_disjoint:
  assumes load: "loadServers (Some doc) pcwd = Inr ss" and d: "distinct (all_names doc pcwd)"
  shows "written ss sc en = mapping doc pcwd sc en"
proof -
  from d have
    a: "fst ` set (mapping doc pcwd User False) \<inter> names_of doc pcwd User True = {}" and
    b: "fst ` set (mapping doc pcwd Local True) \<inter>
          (names_of doc pcwd User True \<union> names_of doc pcwd User False) = {}" and
    c: "fst ` set (mapping doc pcwd Local False) \<inter>
          (names_of doc pcwd User True \<union> names_of doc pcwd User False
             \<union> names_of doc pcwd Local True) = {}"
    by (auto simp: all_names_def names_of_def)
  have ss: "ss = map (entry User True) (mapping doc pcwd User True)
       @ map (entry User False) (mapping doc pcwd User False)
       @ map (entry Local True) (mapping doc pcwd Local True)
       @ map (entry Local False) (mapping doc pcwd Local False)"
    using loaded_form [OF load] by (simp only: filter_fresh [OF a] filter_fresh [OF b] filter_fresh [OF c])
  show ?thesis
    by (subst ss) (cases sc; cases en; simp add: written_append written_entries)
qed

lemma mapping_no_holder: "holder doc pcwd sc = None \<Longrightarrow> mapping doc pcwd sc en = []"
  by (simp add: mapping_def entries_at_def)

text \<open>
  Claim C1, as amended. For a configuration document in which no name occurs twice among
  the four mappings and none is \<open>__proto__\<close>, loading it and saving the list as loaded
  writes a document with the same four mappings: in each scope, the active and the
  disabled mapping send every name to the config it had.
\<close>

theorem roundtrip_partition:
  assumes "config_document doc pcwd"
    and "loadServers (Some doc) pcwd = Inr ss"
    and "distinct (all_names doc pcwd)"
    and "''__proto__'' \<notin> set (all_names doc pcwd)"
  shows "\<exists>doc'. saveState ss (Some doc) pcwd = Written doc' \<and>
           (\<forall>sc en. map_of (mapping doc' pcwd sc en) = map_of (mapping doc pcwd sc en))"
proof -
  have p: "''__proto__'' \<notin> name ` set ss" using loaded_names [OF assms(2)] assms(4) by blast
  from save_partition [OF loaded_distinct [OF assms(2)] p assms(1)] obtain doc' where
    sp: "saveState ss (Some doc) pcwd = Written doc' \<and>
           (\<forall>en. mapping doc' pcwd User en = written ss User en) \<and>
           (written ss User False = [] \<longrightarrow> get_prop doc' ''_disabledMcpServers'' = None) \<and>
           (holder doc pcwd Local = None \<longrightarrow> holder doc' pcwd Local = None) \<and>
           (holder doc pcwd Local \<noteq> None \<longrightarrow>
              (\<forall>en. mapping doc' pcwd Local en = written ss Local en) \<and>
              (\<exists>h. holder doc' pcwd Local = Some h \<and>
                 (written ss Local False = [] \<longrightarrow> get_prop h ''_disabledMcpServers'' = None)))" ..
  from sp have s: "saveState ss (Some doc) pcwd = Written doc'" by simp
  from sp have u: "\<And>en. mapping doc' pcwd User en = written ss User en" by simp
  from sp have n: "holder doc pcwd Local = None \<Longrightarrow> holder doc' pcwd Local = None" by simp
  from sp have l: "\<And>en. holder doc pcwd Local \<noteq> None \<Longrightarrow>
      mapping doc' pcwd Local en = written ss Local en" by simp
  have "mapping doc' pcwd sc en = mapping doc pcwd sc en" for sc en
  proof (cases sc)
    case User
    then show ?thesis by (simp add: u loaded_disjoint [OF assms(2,3)])
  next
    case Local
    show ?thesis
    proof (cases "holder doc pcwd Local")
      case None
      from mapping_no_holder [OF None] mapping_no_holder [OF n [OF None]] Local
      show ?thesis by simp
    next
      case (Some h)
      then show ?thesis using Local by (simp add: l loaded_disjoint [OF assms(2,3)])
    qed
  qed
  with s show ?thesis by simp
qed

lemmas json_eval2 = json_eval all_names_def config_document_def written_def store_def

lemma full_load:
  "loadServers (Some full_doc) ''/w'' =
     Inr [\<lparr>name = ''a'', source = User, enabled = True, config = JNumber 1\<rparr>,
          \<lparr>name = ''b'', source = User, enabled = False, config = JNumber 2\<rparr>,
          \<lparr>name = ''c'', source = Local, enabled = True, config = JNumber 3\<rparr>,
          \<lparr>name = ''d'', source = Local, enabled = False, config = JNumber 4\<rparr>]"
  by (simp add: full_doc_def loadServers_def json_eval)

theorem roundtrip_partition_witness:
  "config_document full_doc ''/w'' \<and>
   distinct (all_names full_doc ''/w'') \<and>
   ''__proto__'' \<notin> set (all_names full_doc ''/w'') \<and>
   (\<exists>doc'. saveState
       [\<lparr>name = ''a'', source = User, enabled = True, config = JNumber 1\<rparr>,
        \<lparr>name = ''b'', source = User, enabled = False, config = JNumber 2\<rparr>,
        \<lparr>name = ''c'', source = Local, enabled = True, config = JNumber 3\<rparr>,
        \<lparr>name = ''d'', source = Local, enabled = False, config = JNumber 4\<rparr>]
       (Some full_doc) ''/w'' = Written doc' \<and>
      (\<forall>sc en. map_of (mapping doc' ''/w'' sc en) = map_of (mapping full_doc ''/w'' sc en)))"
proof -
  have c: "config_document full_doc ''/w''" by (simp add: full_doc_def json_eval2)
  have d: "distinct (all_names full_doc ''/w'')" by (simp add: full_doc_def json_eval2)
  have p: "''__proto__'' \<notin> set (all_names full_doc ''/w'')" by (simp add: full_doc_def json_eval2)
  from roundtrip_partition [OF c full_load d p] c d p show ?thesis by simp
qed

text \<open>
  Claim C1 as stated fails: \<open>cross_doc\<close> has the name \<open>a\<close> in the global and in the
  local active mapping; the loader keeps the global entry only, and saving the list
  untouched writes an empty local active mapping.
\<close>

theorem roundtrip_counterexample:
  "loadServers (Some cross_doc) ''/w'' =
     Inr [\<lparr>name = ''a'', source = User, enabled = True, config = JNumber 1\<rparr>] \<and>
   saveState [\<lparr>name = ''a'', source = User, enabled = True, config = JNumber 1\<rparr>]
     (Some cross_doc) ''/w'' =
     Written (JObject
       [(''mcpServers'', JObject [(''a'', JNumber 1)]),
        (''projects'', JObject [(''/w'', JObject [(''mcpServers'', JObject [])])])]) \<and>
   map_of (mapping cross_doc ''/w'' Local True) ''a'' = Some (JNumber 2) \<and>
   map_of (mapping (JObject
       [(''mcpServers'', JObject [(''a'', JNumber 1)]),
        (''projects'', JObject [(''/w'', JObject [(''mcpServers'', JObject [])])])])
     ''/w'' Local True) ''a'' = None"
  by (simp add: cross_doc_def loadServers_def saveState_def json_eval2)

lemma map_of_written:
  assumes "distinct (map name ss)"
  shows "(map_of (written ss sc en) nm = Some c) =
           (\<exists>s \<in> set ss. name s = nm \<and> source s = sc \<and> enabled s = en \<and> config s = c)"
proof -
  have "(map_of (written ss sc en) nm = Some c) = ((nm, c) \<in> set (written ss sc en))"
    using distinct_written [OF assms] by simp
  also have "\<dots> = (\<exists>s \<in> set ss. name s = nm \<and> source s = sc \<and> enabled s = en \<and> config s = c)"
    by (auto simp: written_def)
  finally show ?thesis .
qed

lemma loaded_no_local:
  assumes "loadServers (Some doc) pcwd = Inr ss" and "holder doc pcwd Local = None"
  shows "\<forall>s \<in> set ss. source s = User"
  by (subst loaded_form [OF assms(1)]) (auto simp: mapping_no_holder [OF assms(2)])

lemma written_no_local:
  assumes "\<forall>s \<in> set ss. source s = User"
  shows "written ss Local en = []"
  using assms by (auto simp: written_def filter_empty_conv)

text \<open>
  What saving writes after any change of the enabled flags alone, for a list the loader
  made of the same document and that has no entry named \<open>__proto__\<close>.
\<close>

lemma save_after_toggles:
  assumes c: "config_document doc pcwd"
    and load: "loadServers (Some doc) pcwd = Inr ss"
    and p: "''__proto__'' \<notin> name ` set ss"
    and same: "map name ss' = map name ss" "map source ss' = map source ss"
  shows "\<exists>doc'. saveState ss' (Some doc) pcwd = Written doc' \<and>
           (\<forall>sc en nm cfg. (map_of (mapping doc' pcwd sc en) nm = Some cfg) =
              (\<exists>s \<in> set ss'. name s = nm \<and> source s = sc \<and> enabled s = en \<and> config s = cfg))"
proof -
  have d: "distinct (map name ss')" using loaded_distinct [OF load] same(1) by simp
  have "name ` set ss' = name ` set ss" using same(1) by (metis set_map)
  with p have p': "''__proto__'' \<notin> name ` set ss'" by simp
  have src: "source ` set ss' = source ` set ss" using same(2) by (metis set_map)
  from save_partition [OF d p' c] obtain doc' where
    sp: "saveState ss' (Some doc) pcwd = Written doc' \<and>
           (\<forall>en. mapping doc' pcwd User en = written ss' User en) \<and>
           (written ss' User False = [] \<longrightarrow> get_prop doc' ''_disabledMcpServers'' = None) \<and>
           (holder doc pcwd Local = None \<longrightarrow> holder doc' pcwd Local = None) \<and>
           (holder doc pcwd Local \<noteq> None \<longrightarrow>
              (\<forall>en. mapping doc' pcwd Local en = written ss' Local en) \<and>
              (\<exists>h. holder doc' pcwd Local = Some h \<and>
                 (written ss' Local False = [] \<longrightarrow> get_prop h ''_disabledMcpServers'' = None)))" ..
  have "mapping doc' pcwd sc en = written ss' sc en" for sc en
  proof (cases sc)
    case User
    with sp show ?thesis by simp
  next
    case Local
    show ?thesis
    proof (cases "holder doc pcwd Local")
      case None
      from loaded_no_local [OF load None] src have "\<forall>s \<in> set ss'. source s = User" by force
      from written_no_local [OF this] sp None Local show ?thesis
        by (simp add: mapping_no_holder)
    next
      case (Some h)
      with sp Local show ?thesis by simp
    qed
  qed
  with sp show ?thesis by (simp add: map_of_written [OF d])
qed

lemma handle_key_keeps:
  assumes "handle_key key s = Next s'"
  shows "map name (servers s') = map name (servers s)"
    and "map source (servers s') = map source (servers s)"
    and "map config (servers s') = map config (servers s)"
  using assms
  by (auto simp: handle_key_def map_update comp_def list_update_same_conv nat_less_iff
      split: if_splits)

lemma filter_user_idem:
  "filter (\<lambda>s. source s = User) (filter (\<lambda>s. source s = User) ss) = filter (\<lambda>s. source s = User) ss"
  by simp

text \<open>
  Claim C4. When the document read at saving has no project entry for the working
  directory, the result of saving is that of saving the global entries alone, whatever
  local entries the list has and however they are toggled; the document written has
  the \<open>projects\<close> table it had, and still no project entry for the directory.
\<close>

theorem no_project_entry_no_local_write:
  assumes "project_entry doc (normalize_cwd pcwd) = None"
  shows "saveState ss (Some doc) pcwd =
           saveState (filter (\<lambda>s. source s = User) ss) (Some doc) pcwd \<and>
         (\<forall>doc'. saveState ss (Some doc) pcwd = Written doc' \<longrightarrow>
            get_prop doc' ''projects'' = get_prop doc ''projects'' \<and>
            project_entry doc' (normalize_cwd pcwd) = None)"
proof (cases doc)
  case (JObject raw)
  note s = save_no_entry [OF assms [unfolded JObject]]
  have "get_prop (JObject (store (own_props raw)
           (rebuild (filter (\<lambda>s. source s = User) ss) ([], [])))) ''projects'' =
        get_prop doc ''projects''"
    unfolding JObject by (rule get_prop_projects_stored)
  moreover from this assms have "project_entry (JObject (store (own_props raw)
           (rebuild (filter (\<lambda>s. source s = User) ss) ([], [])))) (normalize_cwd pcwd) = None"
    by (simp only: project_entry_def)
  ultimately show ?thesis
    unfolding JObject s [of ss] s [of "filter (\<lambda>s. source s = User) ss"] filter_user_idem
    by (simp del: get_prop.simps add: JObject)
qed (simp_all add: saveState_def project_entry_def)

theorem no_project_entry_no_local_write_witness:
  "project_entry scenario_doc (normalize_cwd ''/w'') = None \<and>
   saveState
     [\<lparr>name = ''a'', source = User, enabled = True, config = JObject [(''x'', JNumber 1)]\<rparr>,
      \<lparr>name = ''c'', source = Local, enabled = False, config = JNumber 5\<rparr>]
     (Some scenario_doc) ''/w'' =
     Written (JObject [(''mcpServers'', JObject [(''a'', JObject [(''x'', JNumber 1)])])]) \<and>
   get_prop (JObject [(''mcpServers'', JObject [(''a'', JObject [(''x'', JNumber 1)])])]) ''projects''
     = None"
proof -
  have n: "project_entry scenario_doc (normalize_cwd ''/w'') = None"
    by (simp add: scenario_doc_def json_eval2)
  from no_project_entry_no_local_write [OF n,
      of "[\<lparr>name = ''a'', source = User, enabled = True, config = JObject [(''x'', JNumber 1)]\<rparr>,
           \<lparr>name = ''c'', source = Local, enabled = False, config = JNumber 5\<rparr>]"] n
  show ?thesis by (simp add: scenario_doc_def saveState_def json_eval2)
qed

text \<open>
  Claim C6, as amended. For a list of distinct names, none of them \<open>__proto__\<close>, and a
  configuration document read at saving: the all-on key enables every entry, and saving
  then writes a document without the global disabled key whose global active mapping
  has every global entry with its config. When the document has a project entry for the
  working directory, the entry written has no disabled key either and its active
  mapping has every local entry with its config; when it has none, none is written.
\<close>

theorem all_on_save:
  assumes "distinct (map name ss)" and "''__proto__'' \<notin> name ` set ss"
    and "config_document doc pcwd"
  shows "handle_key ''a'' \<lparr>servers = ss, cursor = i\<rparr> =
           Next \<lparr>servers = map (\<lambda>x. x\<lparr>enabled := True\<rparr>) ss, cursor = i\<rparr> \<and>
         (\<exists>doc'. saveState (map (\<lambda>x. x\<lparr>enabled := True\<rparr>) ss) (Some doc) pcwd = Written doc' \<and>
            get_prop doc' ''_disabledMcpServers'' = None \<and>
            (\<forall>s \<in> set ss. source s = User \<longrightarrow>
               map_of (mapping doc' pcwd User True) (name s) = Some (config s)) \<and>
            (holder doc pcwd Local = None \<longrightarrow> holder doc' pcwd Local = None) \<and>
            (holder doc pcwd Local \<noteq> None \<longrightarrow>
               (\<exists>h. holder doc' pcwd Local = Some h \<and> get_prop h ''_disabledMcpServers'' = None) \<and>
               (\<forall>s \<in> set ss. source s = Local \<longrightarrow>
                  map_of (mapping doc' pcwd Local True) (name s) = Some (config s))))"
proof -
  let ?on = "map (\<lambda>x. x\<lparr>enabled := True\<rparr>) ss"
  have key: "handle_key ''a'' \<lparr>servers = ss, cursor = i\<rparr> = Next \<lparr>servers = ?on, cursor = i\<rparr>"
    by (simp add: handle_key_def ESC_def)
  have d: "distinct (map name ?on)" using assms(1) by (simp add: comp_def)
  have p: "''__proto__'' \<notin> name ` set ?on" using assms(2) by (simp add: image_image)
  have off: "written ?on sc False = []" for sc
    by (simp add: written_def filter_empty_conv)
  have on: "map_of (written ?on sc True) (name s) = Some (config s)"
    if "s \<in> set ss" "source s = sc" for s sc
    unfolding map_of_written [OF d] using that by (intro bexI [of _ "s\<lparr>enabled := True\<rparr>"]) auto
  from save_partition [OF d p assms(3)] obtain doc' where
    sp: "saveState ?on (Some doc) pcwd = Written doc' \<and>
           (\<forall>en. mapping doc' pcwd User en = written ?on User en) \<and>
           (written ?on User False = [] \<longrightarrow> get_prop doc' ''_disabledMcpServers'' = None) \<and>
           (holder doc pcwd Local = None \<longrightarrow> holder doc' pcwd Local = None) \<and>
           (holder doc pcwd Local \<noteq> None \<longrightarrow>
              (\<forall>en. mapping doc' pcwd Local en = written ?on Local en) \<and>
              (\<exists>h. holder doc' pcwd Local = Some h \<and>
                 (written ?on Local False = [] \<longrightarrow> get_prop h ''_disabledMcpServers'' = None)))" ..
  from sp off on have
    "saveState ?on (Some doc) pcwd = Written doc' \<and>
            get_prop doc' ''_disabledMcpServers'' = None \<and>
            (\<forall>s \<in> set ss. source s = User \<longrightarrow>
               map_of (mapping doc' pcwd User True) (name s) = Some (config s)) \<and>
            (holder doc pcwd Local = None \<longrightarrow> holder doc' pcwd Local = None) \<and>
            (holder doc pcwd Local \<noteq> None \<longrightarrow>
               (\<exists>h. holder doc' pcwd Local = Some h \<and> get_prop h ''_disabledMcpServers'' = None) \<and>
               (\<forall>s \<in> set ss. source s = Local \<longrightarrow>
                  map_of (mapping doc' pcwd Local True) (name s) = Some (config s)))"
    by simp
  then have "\<exists>doc'. saveState ?on (Some doc) pcwd = Written doc' \<and>
            get_prop doc' ''_disabledMcpServers'' = None \<and>
            (\<forall>s \<in> set ss. source s = User \<longrightarrow>
               map_of (mapping doc' pcwd User True) (name s) = Some (config s)) \<and>
            (holder doc pcwd Local = None \<longrightarrow> holder doc' pcwd Local = None) \<and>
            (holder doc pcwd Local \<noteq> None \<longrightarrow>
               (\<exists>h. holder doc' pcwd Local = Some h \<and> get_prop h ''_disabledMcpServers'' = None) \<and>
               (\<forall>s \<in> set ss. source s = Local \<longrightarrow>
                  map_of (mapping doc' pcwd Local True) (name s) = Some (config s)))"
    by (rule exI [of _ doc'])
  with key show ?thesis by (rule conjI)
qed

theorem all_on_save_witness:
  "distinct (map name
     [\<lparr>name = ''a'', source = User, enabled = True, config = JNumber 1\<rparr>,
      \<lparr>name = ''b'', source = User, enabled = False, config = JNumber 2\<rparr>,
      \<lparr>name = ''c'', source = Local, enabled = True, config = JNumber 3\<rparr>,
      \<lparr>name = ''d'', source = Local, enabled = False, config = JNumber 4\<rparr>]) \<and>
   config_document full_doc ''/w'' \<and>
   holder full_doc ''/w'' Local \<noteq> None \<and>
   saveState
     [\<lparr>name = ''a'', source = User, enabled = True, config = JNumber 1\<rparr>,
      \<lparr>name = ''b'', source = User, enabled = True, config = JNumber 2\<rparr>,
      \<lparr>name = ''c'', source = Local, enabled = True, config = JNumber 3\<rparr>,
      \<lparr>name = ''d'', source = Local, enabled = True, config = JNumber 4\<rparr>]
     (Some full_doc) ''/w'' =
     Written (JObject
       [(''mcpServers'', JObject [(''a'', JNumber 1), (''b'', JNumber 2)]),
        (''theme'', JString ''dark''),
        (''projects'', JObject
           [(''/w'', JObject [(''mcpServers'', JObject [(''c'', JNumber 3), (''d'', JNumber 4)])])])])"
  using all_on_save [of
     "[\<lparr>name = ''a'', source = User, enabled = True, config = JNumber 1\<rparr>,
      \<lparr>name = ''b'', source = User, enabled = False, config = JNumber 2\<rparr>,
      \<lparr>name = ''c'', source = Local, enabled = True, config = JNumber 3\<rparr>,
      \<lparr>name = ''d'', source = Local, enabled = False, config = JNumber 4\<rparr>]" full_doc "''/w''" 0]
  by (simp add: full_doc_def saveState_def json_eval2)

text \<open>
  Claim C6 as stated fails: the list loaded from \<open>local_doc\<close> has the local entry
  \<open>c\<close>; when the file read again at saving is \<open>moved_doc\<close>, without the project entry,
  all-on and save write no local active mapping, so \<open>c\<close> is in none.
\<close>

theorem all_on_save_counterexample:
  "loadServers (Some local_doc) ''/w'' =
     Inr [\<lparr>name = ''c'', source = Local, enabled = False, config = JNumber 5\<rparr>] \<and>
   handle_key ''a''
     \<lparr>servers = [\<lparr>name = ''c'', source = Local, enabled = False, config = JNumber 5\<rparr>], cursor = 0\<rparr> =
     Next \<lparr>servers = [\<lparr>name = ''c'', source = Local, enabled = True, config = JNumber 5\<rparr>],
           cursor = 0\<rparr> \<and>
   saveState [\<lparr>name = ''c'', source = Local, enabled = True, config = JNumber 5\<rparr>]
     (Some moved_doc) ''/w'' =
     Written (JObject [(''projects'', JObject []), (''mcpServers'', JObject [])]) \<and>
   mapping (JObject [(''projects'', JObject []), (''mcpServers'', JObject [])]) ''/w'' Local True = []"
  by (simp add: local_doc_def moved_doc_def loadServers_def saveState_def handle_key_def ESC_def
      json_eval2)

section \<open>Runs of the program\<close>

lemmas run_eval =
  program_def cleanup_def handle_key_def ESC_def plain_env_def is_stop_def is_cancel_def
  is_confirm_def loadServers_def saveState_def json_eval2

lemma handle_cancel: "is_cancel key \<Longrightarrow> handle_key key s = Cleanup False"
  by (auto simp: is_cancel_def handle_key_def ESC_def)

lemma handle_confirm: "is_confirm key \<Longrightarrow> \<not> is_cancel key \<Longrightarrow> handle_key key s = Cleanup True"
  by (auto simp: is_confirm_def is_cancel_def handle_key_def ESC_def)

lemma handle_other: "\<not> is_stop key \<Longrightarrow> handle_key key s \<noteq> Cleanup b"
  by (auto simp: is_stop_def is_confirm_def is_cancel_def handle_key_def ESC_def)

lemma handle_in_range:
  assumes "in_range s" and "\<not> is_stop key"
  shows "\<exists>s'. handle_key key s = Next s' \<and> in_range s'"
proof -
  let ?n = "int (length (servers s))"
  from assms(1) have n: "0 < ?n" and c: "0 \<le> cursor s" "cursor s < ?n"
    by (auto simp: in_range_def)
  have up: "0 \<le> (cursor s - 1 + ?n) smod ?n \<and> (cursor s - 1 + ?n) smod ?n < ?n"
    using c n by (intro conjI smod_int_compares) linarith+
  have down: "0 \<le> (cursor s + 1) smod ?n \<and> (cursor s + 1) smod ?n < ?n"
    using c n by (intro conjI smod_int_compares) linarith+
  from assms(2) c up down show ?thesis
    by (auto simp: handle_key_def in_range_def is_stop_def is_cancel_def is_confirm_def ESC_def)
qed

lemma loop_waits:
  "in_range s \<Longrightarrow> find is_stop keys = None \<Longrightarrow> input_loop e keys s d = Waiting d"
proof (induction keys arbitrary: s)
  case Nil
  then show ?case by simp
next
  case (Cons key keys)
  from Cons.prems have ns: "\<not> is_stop key" and rest: "find is_stop keys = None"
    by (auto split: if_splits)
  from handle_in_range [OF Cons.prems(1) ns] obtain s' where
    "handle_key key s = Next s'" "in_range s'" by blast
  with Cons.IH [OF _ rest] show ?case by simp
qed

lemma loop_stops:
  "in_range s \<Longrightarrow> find is_stop keys = Some k \<Longrightarrow>
   \<exists>s'. in_range s' \<and> map name (servers s') = map name (servers s) \<and>
        map source (servers s') = map source (servers s) \<and>
        map config (servers s') = map config (servers s) \<and>
        input_loop e keys s d = cleanup e (\<not> is_cancel k) s' d"
proof (induction keys arbitrary: s)
  case Nil
  then show ?case by simp
next
  case (Cons key keys)
  show ?case
  proof (cases "is_stop key")
    case True
    with Cons.prems have k: "k = key" by simp
    show ?thesis
    proof (cases "is_cancel key")
      case c: True
      with Cons.prems(1) show ?thesis unfolding k
        by (intro exI [of _ s]) (simp add: handle_cancel)
    next
      case False
      with True have "is_confirm key" by (simp add: is_stop_def)
      from handle_confirm [OF this False] Cons.prems(1) False show ?thesis unfolding k
        by (intro exI [of _ s]) simp
    qed
  next
    case False
    with Cons.prems have rest: "find is_stop keys = Some k" by simp
    from handle_in_range [OF Cons.prems(1) False] obtain s1 where
      h: "handle_key key s = Next s1" and r: "in_range s1" by blast
    from Cons.IH [OF r rest] obtain s' where
      "in_range s'" "map name (servers s') = map name (servers s1)"
      "map source (servers s') = map source (servers s1)"
      "map config (servers s') = map config (servers s1)"
      "input_loop e keys s1 d = cleanup e (\<not> is_cancel k) s' d" by blast
    with h handle_key_keeps [OF h] show ?thesis
      by (intro exI [of _ s']) simp
  qed
qed

lemma loop_cancel:
  "find is_stop keys = Some k \<Longrightarrow> is_cancel k \<Longrightarrow> \<exists>code. input_loop e keys s d = Exited code d"
proof (induction keys arbitrary: s)
  case Nil
  then show ?case by simp
next
  case (Cons key keys)
  show ?case
  proof (cases "is_stop key")
    case True
    with Cons.prems have "is_cancel key" by simp
    then show ?thesis by (simp add: handle_cancel cleanup_def)
  next
    case False
    with Cons.prems have rest: "find is_stop keys = Some k" by simp
    show ?thesis
    proof (cases "handle_key key s")
      case (Next s')
      with Cons.IH [OF rest Cons.prems(2)] show ?thesis by simp
    next
      case (Cleanup b)
      with handle_other [OF False] show ?thesis by blast
    next
      case Uncaught
      then show ?thesis by simp
    qed
  qed
qed

text \<open>
  Claim C5. A run whose first ending key is a cancel key (Escape or Ctrl-C) exits with
  the file as it was and with no write made, whatever keys came before it.
\<close>

theorem cancel_leaves_file:
  assumes "find is_stop keys = Some k" and "is_cancel k"
  shows "\<exists>code. program e d keys = Exited code d"
  using loop_cancel [OF assms]
  by (auto simp: program_def split: sum.splits)

theorem cancel_leaves_file_witness:
  "find is_stop ['' '', ''n'', ESC, [CHR 0x0D]] = Some ESC \<and> is_cancel ESC \<and>
   program plain_env \<lparr>contents = Some scenario_doc, writes = 0\<rparr> ['' '', ''n'', ESC, [CHR 0x0D]] =
     Exited 0 \<lparr>contents = Some scenario_doc, writes = 0\<rparr>"
proof -
  have f: "find is_stop ['' '', ''n'', ESC, [CHR 0x0D]] = Some ESC"
    by (simp add: is_stop_def is_cancel_def is_confirm_def ESC_def)
  have c: "is_cancel ESC" by (simp add: is_cancel_def)
  from cancel_leaves_file [OF f c, of plain_env "\<lparr>contents = Some scenario_doc, writes = 0\<rparr>"] f c
  show ?thesis by (simp add: run_eval scenario_doc_def)
qed

lemma config_document_no_throw:
  assumes "config_document doc pcwd"
  shows "\<exists>doc'. saveState ss (Some doc) pcwd = Written doc'"
  using assms
proof (cases rule: config_document_cases)
  case (1 raw)
  then show ?thesis using save_no_entry by simp
next
  case (2 raw eraw)
  from save_entry [OF 2(2) [unfolded 2(1)], of ss] 2(1) show ?thesis by auto
qed

lemma load_unreadable:
  "(loadServers r pcwd = Inl ConfigUnreadable) = (r = None \<or> (\<exists>doc. r = Some doc \<and> \<not> truthy doc))"
  by (auto simp: loadServers_def Let_def split: option.splits)

lemma start_in_range: "ss \<noteq> [] \<Longrightarrow> in_range \<lparr>servers = ss, cursor = 0\<rparr>"
  by (simp add: in_range_def)

text \<open>
  Claim C8, as amended. The loader refuses the file exactly when it cannot be read or
  parsed or when it parses to a falsy value (\<open>null\<close>, \<open>false\<close>, \<open>0\<close>, the empty string).
  The program exits with code 1, the file untouched and no key read, when the loader
  refuses the file, when the list is empty, or when the input is not a terminal.
  Otherwise it reaches the loop: it waits as long as no ending key comes, exits with
  code 0 when the first ending key cancels, and exits with code 0 when the first ending
  key confirms, the document read at saving is a configuration document and the file
  can be written.
\<close>

theorem exit_codes:
  "(loadServers (readJSON e (contents d)) (process_cwd e) = Inl ConfigUnreadable \<longleftrightarrow>
      readJSON e (contents d) = None \<or>
      (\<exists>doc. readJSON e (contents d) = Some doc \<and> \<not> truthy doc)) \<and>
   (loadServers (readJSON e (contents d)) (process_cwd e) = Inl ConfigUnreadable \<or>
    loadServers (readJSON e (contents d)) (process_cwd e) = Inr [] \<or> \<not> isTTY e \<longrightarrow>
      program e d keys = Exited 1 d) \<and>
   (\<forall>ss. loadServers (readJSON e (contents d)) (process_cwd e) = Inr ss \<and> ss \<noteq> [] \<and> isTTY e \<longrightarrow>
      (find is_stop keys = None \<longrightarrow> program e d keys = Waiting d) \<and>
      (\<forall>k. find is_stop keys = Some k \<and> is_cancel k \<longrightarrow> program e d keys = Exited 0 d) \<and>
      (\<forall>k doc. find is_stop keys = Some k \<and> \<not> is_cancel k \<and>
          readJSON e (contents d) = Some doc \<and> config_document doc (process_cwd e) \<and> writable e \<longrightarrow>
          (\<exists>d'. program e d keys = Exited 0 d')))"
proof (intro conjI allI impI)
  show "(loadServers (readJSON e (contents d)) (process_cwd e) = Inl ConfigUnreadable) =
      (readJSON e (contents d) = None \<or>
      (\<exists>doc. readJSON e (contents d) = Some doc \<and> \<not> truthy doc))"
    by (rule load_unreadable)
next
  assume "loadServers (readJSON e (contents d)) (process_cwd e) = Inl ConfigUnreadable \<or>
    loadServers (readJSON e (contents d)) (process_cwd e) = Inr [] \<or> \<not> isTTY e"
  then show "program e d keys = Exited 1 d"
    by (auto simp: program_def split: sum.splits)
next
  fix ss
  assume a: "loadServers (readJSON e (contents d)) (process_cwd e) = Inr ss \<and> ss \<noteq> [] \<and> isTTY e"
  then have p: "program e d keys = input_loop e keys \<lparr>servers = ss, cursor = 0\<rparr> d"
    by (simp add: program_def)
  from a have r: "in_range \<lparr>servers = ss, cursor = 0\<rparr>" by (simp add: start_in_range)
  {
    assume "find is_stop keys = None"
    from loop_waits [OF r this] p show "program e d keys = Waiting d" by simp
  next
    fix k
    assume "find is_stop keys = Some k \<and> is_cancel k"
    with loop_stops [OF r, of keys k e d] p show "program e d keys = Exited 0 d"
      by (auto simp: cleanup_def)
  next
    fix k doc
    assume b: "find is_stop keys = Some k \<and> \<not> is_cancel k \<and>
          readJSON e (contents d) = Some doc \<and> config_document doc (process_cwd e) \<and> writable e"
    then obtain s' where "input_loop e keys \<lparr>servers = ss, cursor = 0\<rparr> d = cleanup e True s' d"
      using loop_stops [OF r, of keys k e d] by auto
    moreover from b config_document_no_throw obtain doc' where
      "saveState (servers s') (Some doc) (process_cwd e) = Written doc'" by blast
    ultimately show "\<exists>d'. program e d keys = Exited 0 d'"
      using b p by (simp add: cleanup_def)
  }
qed

theorem exit_codes_witness:
  "loadServers (readJSON plain_env (Some scenario_doc)) (process_cwd plain_env) =
     Inr [\<lparr>name = ''a'', source = User, enabled = True, config = JObject [(''x'', JNumber 1)]\<rparr>,
          \<lparr>name = ''b'', source = User, enabled = False, config = JObject [(''y'', JNumber 2)]\<rparr>] \<and>
   isTTY plain_env \<and> writable plain_env \<and>
   find is_stop ['' '', [CHR 0x0D]] = Some [CHR 0x0D] \<and> \<not> is_cancel [CHR 0x0D] \<and>
   config_document scenario_doc (process_cwd plain_env) \<and>
   program plain_env \<lparr>contents = Some scenario_doc, writes = 0\<rparr> ['' '', [CHR 0x0D]] =
     Exited 0 \<lparr>contents = Some (JObject
       [(''mcpServers'', JObject []),
        (''_disabledMcpServers'',
           JObject [(''a'', JObject [(''x'', JNumber 1)]), (''b'', JObject [(''y'', JNumber 2)])])]),
       writes = 1\<rparr> \<and>
   program plain_env \<lparr>contents = None, writes = 0\<rparr> ['' '', [CHR 0x0D]] =
     Exited 1 \<lparr>contents = None, writes = 0\<rparr>"
  using exit_codes [of plain_env "\<lparr>contents = Some scenario_doc, writes = 0\<rparr>" "['' '', [CHR 0x0D]]"]
    exit_codes [of plain_env "\<lparr>contents = None, writes = 0\<rparr>" "['' '', [CHR 0x0D]]"]
  by (simp add: run_eval scenario_doc_def)

text \<open>
  Claim C8 as stated fails: a file that holds \<open>null\<close> can be read and is valid JSON, the
  input is a terminal, no list is built, and the program exits with code 1.
\<close>

theorem falsy_document_counterexample:
  "readJSON plain_env (Some JNull) = Some JNull \<and>
   loadServers (readJSON plain_env (Some JNull)) (process_cwd plain_env) = Inl ConfigUnreadable \<and>
   isTTY plain_env \<and>
   program plain_env \<lparr>contents = Some JNull, writes = 0\<rparr> [] =
     Exited 1 \<lparr>contents = Some JNull, writes = 0\<rparr>"
  by (simp add: run_eval)

section \<open>The invariant of the entries\<close>

text \<open>
  For every loaded list that has no entry named \<open>__proto__\<close> the invariant holds: a
  run on a configuration document that ends by a confirm key writes a document whose
  four mappings hold exactly the entries of the list as it stands then, each under its
  scope and its enabled flag and with its config; and that list has the names, scopes
  and configs of the list loaded.
\<close>

lemma confirm_writes_partition:
  assumes load: "loadServers (readJSON e (contents d)) (process_cwd e) = Inr ss"
    and ne: "ss \<noteq> []" and tty: "isTTY e" and w: "writable e"
    and doc: "readJSON e (contents d) = Some doc"
    and c: "config_document doc (process_cwd e)"
    and p: "''__proto__'' \<notin> name ` set ss"
    and k: "find is_stop keys = Some k" "\<not> is_cancel k"
  shows "\<exists>(ss' :: server list) doc'.
      program e d keys = Exited 0 \<lparr>contents = stringify e doc', writes = writes d + 1\<rparr> \<and>
      map name ss' = map name ss \<and> map source ss' = map source ss \<and>
      map config ss' = map config ss \<and>
      (\<forall>sc en nm cfg. (map_of (mapping doc' (process_cwd e) sc en) nm = Some cfg) =
         (\<exists>s \<in> set ss'. name s = nm \<and> source s = sc \<and> enabled s = en \<and> config s = cfg))"
proof -
  from load ne tty have pr: "program e d keys = input_loop e keys \<lparr>servers = ss, cursor = 0\<rparr> d"
    by (simp add: program_def)
  from loop_stops [OF start_in_range [OF ne] k(1), of e d] obtain s' where
    ls: "in_range s' \<and> map name (servers s') = map name (servers \<lparr>servers = ss, cursor = 0\<rparr>) \<and>
        map source (servers s') = map source (servers \<lparr>servers = ss, cursor = 0\<rparr>) \<and>
        map config (servers s') = map config (servers \<lparr>servers = ss, cursor = 0\<rparr>) \<and>
        input_loop e keys \<lparr>servers = ss, cursor = 0\<rparr> d = cleanup e (\<not> is_cancel k) s' d" ..
  from ls have n: "map name (servers s') = map name ss" by simp
  from ls have s: "map source (servers s') = map source ss" by simp
  from ls have g: "map config (servers s') = map config ss" by simp
  from ls k(2) have l: "input_loop e keys \<lparr>servers = ss, cursor = 0\<rparr> d = cleanup e True s' d"
    by simp
  from save_after_toggles [OF c load [unfolded doc] p n s] obtain doc' where
    sd: "saveState (servers s') (Some doc) (process_cwd e) = Written doc' \<and>
      (\<forall>sc en nm cfg. (map_of (mapping doc' (process_cwd e) sc en) nm = Some cfg) =
         (\<exists>s \<in> set (servers s'). name s = nm \<and> source s = sc \<and> enabled s = en \<and> config s = cfg))" ..
  from sd have sv: "saveState (servers s') (Some doc) (process_cwd e) = Written doc'" ..
  have ex: "program e d keys = Exited 0 \<lparr>contents = stringify e doc', writes = writes d + 1\<rparr>"
    using pr l sv w doc by (simp add: cleanup_def)
  show ?thesis
  proof (rule exI [where x = "servers s'"], rule exI [where x = doc'], intro conjI)
    show "program e d keys = Exited 0 \<lparr>contents = stringify e doc', writes = writes d + 1\<rparr>"
      by (rule ex)
    show "map name (servers s') = map name ss" by (rule n)
    show "map source (servers s') = map source ss" by (rule s)
    show "map config (servers s') = map config ss" by (rule g)
    from sd show "\<forall>sc en nm cfg. (map_of (mapping doc' (process_cwd e) sc en) nm = Some cfg) =
         (\<exists>s \<in> set (servers s'). name s = nm \<and> source s = sc \<and> enabled s = en \<and> config s = cfg)" ..
  qed
qed

text \<open>
  Claim C2 as stated fails on the code: the list loaded from \<open>proto_doc\<close> has the one
  entry \<open>__proto__\<close>, and saving it writes an empty active mapping and no disabled one;
  a run that does nothing but confirm leaves that document in the file.
\<close>

theorem proto_entry_dropped:
  "loadServers (Some proto_doc) pcwd =
     Inr [\<lparr>name = ''__proto__'', source = User, enabled = True,
           config = JObject [(''command'', JString ''x'')]\<rparr>] \<and>
   saveState [\<lparr>name = ''__proto__'', source = User, enabled = True,
               config = JObject [(''command'', JString ''x'')]\<rparr>] (Some proto_doc) pcwd =
     Written (JObject [(''mcpServers'', JObject [])]) \<and>
   program plain_env \<lparr>contents = Some proto_doc, writes = 0\<rparr> [[CHR 0x0D]] =
     Exited 0 \<lparr>contents = Some (JObject [(''mcpServers'', JObject [])]), writes = 1\<rparr>"
  by (simp add: proto_doc_def run_eval)

text \<open>
  A save that throws ends the run with code 1 and writes nothing: the project entry of
  \<open>odd_doc\<close> is a number, to which no property can be assigned; and a file that cannot
  be written makes \<open>writeFileSync\<close> throw.
\<close>

lemma uncaught_save_exits_1:
  "program plain_env \<lparr>contents = Some odd_doc, writes = 0\<rparr> [[CHR 0x0D]] =
     Exited 1 \<lparr>contents = Some odd_doc, writes = 0\<rparr> \<and>
   program (plain_env\<lparr>writable := False\<rparr>) \<lparr>contents = Some scenario_doc, writes = 0\<rparr>
     [[CHR 0x0D]] =
     Exited 1 \<lparr>contents = Some scenario_doc, writes = 0\<rparr>"
  by (simp add: odd_doc_def scenario_doc_def run_eval)

end
